theory Spec2Isabelle
  imports Complex_Main "HOL-Library.Word"
begin

unbundle bit_operations_syntax

section \<open>Entities, flags and animation data\<close>

text \<open>
  An entity's flag word is a \<open>uint32_t\<close>. The flag masks live in \<open>entity.h\<close>,
  which is not among the sources at hand.
\<close>

type_synonym flags_t = "32 word"

definition ENTITY_FLAG_ANIMATED :: flags_t where
  \<comment> \<open>Modelled from the spec: the masks of \<open>entity.h\<close> (absent) are the distinct single
      bits of the flags bitset (animated, collision, selectable, static, combatable,
      invisible, zombie).\<close>
  "ENTITY_FLAG_ANIMATED = push_bit 0 1"

definition ENTITY_FLAG_COLLISION :: flags_t where
  \<comment> \<open>Modelled from the spec: see \<open>ENTITY_FLAG_ANIMATED\<close>.\<close>
  "ENTITY_FLAG_COLLISION = push_bit 1 1"

definition ENTITY_FLAG_SELECTABLE :: flags_t where
  \<comment> \<open>Modelled from the spec: see \<open>ENTITY_FLAG_ANIMATED\<close>.\<close>
  "ENTITY_FLAG_SELECTABLE = push_bit 2 1"

definition ENTITY_FLAG_STATIC :: flags_t where
  \<comment> \<open>Modelled from the spec: see \<open>ENTITY_FLAG_ANIMATED\<close>.\<close>
  "ENTITY_FLAG_STATIC = push_bit 3 1"

definition ENTITY_FLAG_COMBATABLE :: flags_t where
  \<comment> \<open>Modelled from the spec: see \<open>ENTITY_FLAG_ANIMATED\<close>.\<close>
  "ENTITY_FLAG_COMBATABLE = push_bit 4 1"

definition ENTITY_FLAG_INVISIBLE :: flags_t where
  \<comment> \<open>Modelled from the spec: see \<open>ENTITY_FLAG_ANIMATED\<close>.\<close>
  "ENTITY_FLAG_INVISIBLE = push_bit 5 1"

definition ENTITY_FLAG_ZOMBIE :: flags_t where
  \<comment> \<open>Modelled from the spec: see \<open>ENTITY_FLAG_ANIMATED\<close>.\<close>
  "ENTITY_FLAG_ZOMBIE = push_bit 6 1"

text \<open>
  A C truth test \<open>flags & MASK\<close>.
\<close>

definition flag_set :: "flags_t \<Rightarrow> flags_t \<Rightarrow> bool" where
  "flag_set fl m = (fl AND m \<noteq> 0)"

text \<open>
  \<open>struct SQT\<close>: scale, rotation quaternion and translation of a joint. The C
  \<open>float\<close> components are carried as reals; no arithmetic is done on them here.
\<close>

type_synonym vec3_t = "real \<times> real \<times> real"
type_synonym quat_t = "real \<times> real \<times> real \<times> real"

record SQT =
  scale :: vec3_t
  quat_rotation :: quat_t
  trans_sqt :: vec3_t

record joint =
  parent_idx :: int

text \<open>
  \<open>struct skeleton\<close>: the arrays \<open>joints\<close> and \<open>bind_sqts\<close> are lists; the field
  \<open>num_joints\<close> is the length of \<open>joints\<close>; \<open>inv_bind_poses\<close> is the address of the
  array of inverse bind matrices, whose contents are not read here.
\<close>

record skeleton =
  joints :: "joint list"
  bind_sqts :: "SQT list"
  inv_bind_poses :: nat

definition num_joints :: "skeleton \<Rightarrow> nat" where
  "num_joints skel = length (joints skel)"

record anim_sample =
  local_joint_poses :: "SQT list"

text \<open>
  \<open>struct anim_clip\<close>: \<open>num_frames\<close> is kept as its own field, since \<open>A_Update\<close>
  divides by it.
\<close>

record anim_clip =
  clip_name :: string
  num_frames :: nat
  samples :: "anim_sample list"

record anim_data =
  anims :: "anim_clip list"
  skel :: skeleton

datatype anim_mode = ANIM_MODE_LOOP | ANIM_MODE_ONCE | ANIM_MODE_ONCE_HIDE_ON_FINISH

text \<open>
  \<open>struct anim_ctx\<close>. The clip pointers \<open>active\<close> and \<open>idle\<close> point into the
  entity's \<open>anims\<close> array and are modelled by the index of the clip there.
\<close>

record anim_ctx =
  active :: nat
  idle :: nat
  mode :: anim_mode
  key_fps :: "32 word"
  curr_frame :: nat
  curr_frame_start_ticks :: "32 word"

record entity =
  uid :: "32 word"
  flags :: flags_t
  faction_id :: int
  render_private :: nat
  anim_ctx :: anim_ctx
  anim_private :: anim_data

section \<open>The event queue\<close>

text \<open>
  Event types are the numeric values of \<open>enum eventtype\<close> (\<open>event.h\<close>, absent).
\<close>

type_synonym eventtype = "32 word"

definition EVENT_UPDATE_START :: eventtype where
  \<comment> \<open>Modelled from the spec: the enumerators of \<open>event.h\<close> (absent) are distinct
      values; the numbers chosen here carry no other meaning.\<close>
  "EVENT_UPDATE_START = 65536"

definition EVENT_UPDATE_END :: eventtype where
  \<comment> \<open>Modelled from the spec: see \<open>EVENT_UPDATE_START\<close>.\<close>
  "EVENT_UPDATE_END = 65537"

definition EVENT_UPDATE_UI :: eventtype where
  \<comment> \<open>Modelled from the spec: see \<open>EVENT_UPDATE_START\<close>.\<close>
  "EVENT_UPDATE_UI = 65538"

definition EVENT_ANIM_FINISHED :: eventtype where
  \<comment> \<open>Modelled from the spec: see \<open>EVENT_UPDATE_START\<close>.\<close>
  "EVENT_ANIM_FINISHED = 65539"

definition EVENT_ANIM_CYCLE_FINISHED :: eventtype where
  \<comment> \<open>Modelled from the spec: see \<open>EVENT_UPDATE_START\<close>.\<close>
  "EVENT_ANIM_CYCLE_FINISHED = 65540"

datatype event_source = ES_ENGINE | ES_SCRIPT

text \<open>
  \<open>struct event\<close>; the \<open>void *\<close> argument is an address, \<open>NULL\<close> is 0.
\<close>

record event =
  ev_type :: eventtype
  ev_arg :: nat
  ev_source :: event_source
  receiver_id :: "32 word"

definition queue_event_push :: "event \<Rightarrow> event list \<Rightarrow> event list" where
  \<comment> \<open>Modelled from the spec: the queue of \<open>lib/public/queue.h\<close> (absent) is a FIFO;
      a push adds at the back.\<close>
  "queue_event_push e q = q @ [e]"

definition E_Entity_Notify ::
  "eventtype \<Rightarrow> 32 word \<Rightarrow> nat \<Rightarrow> event_source \<Rightarrow> event list \<Rightarrow> event list" where
  "E_Entity_Notify ev ent_uid event_arg source q =
     queue_event_push
       \<lparr>ev_type = ev, ev_arg = event_arg, ev_source = source, receiver_id = ent_uid\<rparr> q"

section \<open>The animation sampler\<close>

fun clip_index :: "anim_clip list \<Rightarrow> string \<Rightarrow> nat \<Rightarrow> nat option" where
  "clip_index [] name i = None"
| "clip_index (c # cs) name i =
     (if clip_name c = name then Some i else clip_index cs name (Suc i))"

definition a_clip_for_name :: "entity \<Rightarrow> string \<Rightarrow> nat option" where
  "a_clip_for_name ent name = clip_index (anims (anim_private ent)) name 0"

text \<open>
  \<open>A_SetActiveClip\<close>; \<open>ticks\<close> is what \<open>SDL_GetTicks()\<close> returns in it. The
  failed \<open>assert(clip)\<close> is the result \<open>None\<close>.
\<close>

definition A_SetActiveClip ::
  "32 word \<Rightarrow> entity \<Rightarrow> string \<Rightarrow> anim_mode \<Rightarrow> 32 word \<Rightarrow> entity option" where
  "A_SetActiveClip ticks ent name md fps =
     (case a_clip_for_name ent name of
        None \<Rightarrow> None
      | Some clip \<Rightarrow>
          Some (ent\<lparr>anim_ctx := (anim_ctx ent)\<lparr>active := clip, mode := md, key_fps := fps,
                  curr_frame := 0, curr_frame_start_ticks := ticks\<rparr>\<rparr>))"

text \<open>
  The test \<open>elapsed_secs > frame_period_secs\<close> of \<open>A_Update\<close>, with
  \<open>frame_period_secs = 1.0f/key_fps\<close> and
  \<open>elapsed_secs = (curr_ticks - curr_frame_start_ticks)/1000.0f\<close>. The subtraction is
  that of \<open>uint32_t\<close>. The two quotients are taken in the reals; the division of
  \<open>1.0f\<close> by a zero \<open>key_fps\<close> gives \<open>+inf\<close>, which every elapsed time is
  below.
\<close>

datatype secs = Secs real | Inf_secs

definition frame_period_secs :: "32 word \<Rightarrow> secs" where
  "frame_period_secs fps = (if fps = 0 then Inf_secs else Secs (1 / real (unat fps)))"

definition elapsed_secs :: "32 word \<Rightarrow> 32 word \<Rightarrow> real" where
  "elapsed_secs curr_ticks start = real (unat (curr_ticks - start)) / 1000"

definition secs_greater :: "real \<Rightarrow> secs \<Rightarrow> bool" where
  "secs_greater e p = (case p of Secs r \<Rightarrow> e > r | Inf_secs \<Rightarrow> False)"

definition secs_less :: "real \<Rightarrow> secs \<Rightarrow> bool" where
  "secs_less e p = (case p of Secs r \<Rightarrow> e < r | Inf_secs \<Rightarrow> True)"

definition frame_elapsed :: "32 word \<Rightarrow> anim_ctx \<Rightarrow> bool" where
  "frame_elapsed curr_ticks ctx =
     secs_greater (elapsed_secs curr_ticks (curr_frame_start_ticks ctx))
       (frame_period_secs (key_fps ctx))"

text \<open>
  \<open>A_Update\<close> on an entity and the event queue. \<open>curr_ticks\<close> is the reading of
  \<open>SDL_GetTicks()\<close> in \<open>A_Update\<close>, \<open>ticks'\<close> the later one in
  \<open>A_SetActiveClip\<close>. \<open>None\<close> stands for the failed assertion, the remainder by a
  zero \<open>num_frames\<close> and a clip pointer that points to no clip.
\<close>

definition A_Update ::
  "32 word \<Rightarrow> 32 word \<Rightarrow> entity \<Rightarrow> event list \<Rightarrow> (entity \<times> event list) option" where
  "A_Update curr_ticks ticks' ent q =
     (let ctx = anim_ctx ent in
      if frame_elapsed curr_ticks ctx then
        if active ctx < length (anims (anim_private ent))
           \<and> num_frames (anims (anim_private ent) ! active ctx) \<noteq> 0 then
          let n = num_frames (anims (anim_private ent) ! active ctx);
              ctx1 = ctx\<lparr>curr_frame := (curr_frame ctx + 1) mod n,
                         curr_frame_start_ticks := curr_ticks\<rparr>;
              ent1 = ent\<lparr>anim_ctx := ctx1\<rparr>
          in
            if curr_frame ctx1 = 0 then
              let q1 = E_Entity_Notify EVENT_ANIM_CYCLE_FINISHED (uid ent1) 0 ES_ENGINE q;
                  ent2 = (if mode ctx1 = ANIM_MODE_ONCE_HIDE_ON_FINISH
                          then ent1\<lparr>flags := flags ent1 OR ENTITY_FLAG_INVISIBLE\<rparr>
                          else ent1)
              in
                if mode ctx1 = ANIM_MODE_ONCE_HIDE_ON_FINISH \<or> mode ctx1 = ANIM_MODE_ONCE then
                  let q2 = E_Entity_Notify EVENT_ANIM_FINISHED (uid ent2) 0 ES_ENGINE q1 in
                    if idle ctx1 < length (anims (anim_private ent2)) then
                      (case A_SetActiveClip ticks' ent2
                              (clip_name (anims (anim_private ent2) ! idle ctx1))
                              ANIM_MODE_LOOP (key_fps ctx1) of
                         None \<Rightarrow> None
                       | Some ent3 \<Rightarrow> Some (ent3, q2))
                    else None
                else Some (ent2, q1)
            else Some (ent1, q)
        else None
      else Some (ent, q))"

text \<open>
  \<open>A_InitCtx\<close>: the only place that sets the \<open>idle\<close> pointer.
\<close>

definition A_InitCtx :: "32 word \<Rightarrow> entity \<Rightarrow> string \<Rightarrow> 32 word \<Rightarrow> entity option" where
  "A_InitCtx ticks ent idle_clip fps =
     (case a_clip_for_name ent idle_clip of
        None \<Rightarrow> None
      | Some i \<Rightarrow>
          A_SetActiveClip ticks (ent\<lparr>anim_ctx := (anim_ctx ent)\<lparr>idle := i\<rparr>\<rparr>) idle_clip
            ANIM_MODE_LOOP fps)"

text \<open>
  What \<open>A_InitCtx\<close> leaves behind: the idle pointer points to a clip of the entity,
  the one that a lookup of its name finds.
\<close>

definition idle_clip_ok :: "entity \<Rightarrow> bool" where
  "idle_clip_ok ent =
     (idle (anim_ctx ent) < length (anims (anim_private ent))
      \<and> a_clip_for_name ent (clip_name (anims (anim_private ent) ! idle (anim_ctx ent)))
          = Some (idle (anim_ctx ent)))"

text \<open>
  The matrix library \<open>pf_math.h\<close> is not among the sources at hand: the operations
  \<open>a_mat_from_sqt\<close> and the two walks call are parameters, over any type \<open>'m\<close> of
  matrices.
\<close>

record 'm pfm =
  PFM_Mat4x4_Identity :: 'm
  PFM_Mat4x4_Mult4x4 :: "'m \<Rightarrow> 'm \<Rightarrow> 'm"
  PFM_Mat4x4_MakeScale :: "real \<Rightarrow> real \<Rightarrow> real \<Rightarrow> 'm"
  PFM_Mat4x4_MakeTrans :: "real \<Rightarrow> real \<Rightarrow> real \<Rightarrow> 'm"
  PFM_Mat4x4_RotFromQuat :: "quat_t \<Rightarrow> 'm"

definition a_mat_from_sqt :: "'m pfm \<Rightarrow> SQT \<Rightarrow> 'm" where
  "a_mat_from_sqt P sqt =
     (let scale_m = (case scale sqt of (x, y, z) \<Rightarrow> PFM_Mat4x4_MakeScale P x y z);
          trans_m = (case trans_sqt sqt of (x, y, z) \<Rightarrow> PFM_Mat4x4_MakeTrans P x y z);
          rot = PFM_Mat4x4_RotFromQuat P (quat_rotation sqt);
          tmp = PFM_Mat4x4_Mult4x4 P rot scale_m
      in PFM_Mat4x4_Mult4x4 P trans_m tmp)"

text \<open>
  The upward walk \<open>while(joint_idx >= 0)\<close> of \<open>a_make_bind_mat\<close> and
  \<open>a_make_pose_mat\<close>. The loop has no bound of its own, so the model counts its
  iterations down from a fuel: \<open>Walk_Fuel\<close> says that the loop wanted one more
  iteration than the fuel allows. \<open>Walk_Fault\<close> is a read outside the arrays.
\<close>

datatype 'm walk = Walk_Done 'm | Walk_Fuel | Walk_Fault

fun sqt_walk :: "'m pfm \<Rightarrow> nat \<Rightarrow> joint list \<Rightarrow> SQT list \<Rightarrow> int \<Rightarrow> 'm \<Rightarrow> 'm walk" where
  "sqt_walk P 0 js sqts joint_idx m = (if joint_idx \<ge> 0 then Walk_Fuel else Walk_Done m)"
| "sqt_walk P (Suc fuel) js sqts joint_idx m =
     (if joint_idx \<ge> 0 then
        if nat joint_idx < length js \<and> nat joint_idx < length sqts then
          let to_parent = a_mat_from_sqt P (sqts ! nat joint_idx);
              to_curr = m
          in sqt_walk P fuel js sqts (parent_idx (js ! nat joint_idx))
               (PFM_Mat4x4_Mult4x4 P to_parent to_curr)
        else Walk_Fault
      else Walk_Done m)"

definition a_make_bind_mat :: "'m pfm \<Rightarrow> nat \<Rightarrow> int \<Rightarrow> skeleton \<Rightarrow> 'm walk" where
  "a_make_bind_mat P fuel joint_idx sk =
     sqt_walk P fuel (joints sk) (bind_sqts sk) joint_idx (PFM_Mat4x4_Identity P)"

definition a_make_pose_mat :: "'m pfm \<Rightarrow> nat \<Rightarrow> entity \<Rightarrow> int \<Rightarrow> skeleton \<Rightarrow> 'm walk" where
  "a_make_pose_mat P fuel ent joint_idx sk =
     (let ctx = anim_ctx ent; clips = anims (anim_private ent) in
      if active ctx < length clips \<and> curr_frame ctx < length (samples (clips ! active ctx)) then
        let sample = samples (clips ! active ctx) ! curr_frame ctx in
          sqt_walk P fuel (joints sk) (local_joint_poses sample) joint_idx
            (PFM_Mat4x4_Identity P)
      else Walk_Fault)"

text \<open>
  The parent chain of \<open>joint_idx\<close> reaches a negative index within \<open>n\<close> steps.
\<close>

fun reaches_root :: "joint list \<Rightarrow> nat \<Rightarrow> int \<Rightarrow> bool" where
  "reaches_root js 0 joint_idx = (joint_idx < 0)"
| "reaches_root js (Suc n) joint_idx =
     (joint_idx < 0 \<or>
      (nat joint_idx < length js \<and> reaches_root js n (parent_idx (js ! nat joint_idx))))"

text \<open>
  The parent chain of \<open>joint_idx\<close> reaches a negative index in exactly \<open>n\<close> steps.
\<close>

fun chain_length :: "joint list \<Rightarrow> nat \<Rightarrow> int \<Rightarrow> bool" where
  "chain_length js 0 joint_idx = (joint_idx < 0)"
| "chain_length js (Suc n) joint_idx =
     (joint_idx \<ge> 0 \<and> nat joint_idx < length js
      \<and> chain_length js n (parent_idx (js ! nat joint_idx)))"



text \<open>
  The current sample of the entity exists and holds a pose for every joint of the
  skeleton.
\<close>

definition pose_sample_ok :: "entity \<Rightarrow> skeleton \<Rightarrow> bool" where
  "pose_sample_ok ent sk =
     (let ctx = anim_ctx ent; clips = anims (anim_private ent) in
      active ctx < length clips
      \<and> curr_frame ctx < length (samples (clips ! active ctx))
      \<and> length (local_joint_poses (samples (clips ! active ctx) ! curr_frame ctx))
          = length (joints sk))"

text \<open>
  The current sample \<open>&ctx->active->samples[ctx->curr_frame]\<close> of an entity.
\<close>

definition curr_sample :: "entity \<Rightarrow> anim_sample" where
  "curr_sample ent =
     samples (anims (anim_private ent) ! active (anim_ctx ent)) ! curr_frame (anim_ctx ent)"

text \<open>
  The event \<open>E_Entity_Notify(ev, ent->uid, NULL, ES_ENGINE)\<close> queues.
\<close>

definition anim_event :: "eventtype \<Rightarrow> entity \<Rightarrow> event" where
  "anim_event ev ent = \<lparr>ev_type = ev, ev_arg = 0, ev_source = ES_ENGINE, receiver_id = uid ent\<rparr>"


subsection \<open>A concrete entity\<close>

text \<open>
  A chain of three joints, two clips of two frames each at two key frames a second,
  and a matrix algebra small enough to compute by hand: the matrix \<open>(a, b)\<close> is the
  map \<open>x \<mapsto> a * x + b\<close> of scaling and translation along one axis, its product the
  composition of maps.
\<close>

definition ex_sqt :: "real \<Rightarrow> SQT" where
  "ex_sqt k = \<lparr>scale = (k, k, k), quat_rotation = (0, 0, 0, 1), trans_sqt = (k, 0, 0)\<rparr>"

definition ex_skel :: skeleton where
  "ex_skel = \<lparr>joints = [\<lparr>parent_idx = -1\<rparr>, \<lparr>parent_idx = 0\<rparr>, \<lparr>parent_idx = 1\<rparr>],
              bind_sqts = [ex_sqt 1, ex_sqt 2, ex_sqt 3], inv_bind_poses = 4096\<rparr>"

definition ex_clip :: "string \<Rightarrow> anim_clip" where
  "ex_clip name = \<lparr>clip_name = name, num_frames = 2,
      samples = [\<lparr>local_joint_poses = [ex_sqt 1, ex_sqt 2, ex_sqt 3]\<rparr>,
                 \<lparr>local_joint_poses = [ex_sqt 4, ex_sqt 5, ex_sqt 6]\<rparr>]\<rparr>"

definition ex_ent :: "anim_mode \<Rightarrow> nat \<Rightarrow> entity" where
  "ex_ent md fr = \<lparr>uid = 7, flags = ENTITY_FLAG_ANIMATED OR ENTITY_FLAG_COLLISION,
      faction_id = 0, render_private = 1,
      anim_ctx = \<lparr>active = 1, idle = 0, mode = md, key_fps = 2, curr_frame = fr,
                  curr_frame_start_ticks = 1000\<rparr>,
      anim_private = \<lparr>anims = [ex_clip ''idle'', ex_clip ''attack''], skel = ex_skel\<rparr>\<rparr>"

definition ex_pfm :: "(real \<times> real) pfm" where
  "ex_pfm = \<lparr>PFM_Mat4x4_Identity = (1, 0),
             PFM_Mat4x4_Mult4x4 = (\<lambda>(a, b) (c, d). (a * c, a * d + b)),
             PFM_Mat4x4_MakeScale = (\<lambda>x y z. (x, 0)),
             PFM_Mat4x4_MakeTrans = (\<lambda>x y z. (1, x)),
             PFM_Mat4x4_RotFromQuat = (\<lambda>q. (1, 0))\<rparr>"

subsection \<open>Single-precision matrices\<close>


















section \<open>The event bus\<close>

datatype handler_type = HANDLER_TYPE_ENGINE | HANDLER_TYPE_SCRIPT

text \<open>
  \<open>struct handler_desc\<close>: the union of a function pointer and a script callable is
  the address \<open>handler\<close>; \<open>simmask\<close> and the simulation state are C \<open>int\<close>s, of
  which only the bits are used.
\<close>

record handler_desc =
  hd_type :: handler_type
  handler :: nat
  user_arg :: nat
  simmask :: "32 word"

definition GLOBAL_ID :: "32 word" where
  "GLOBAL_ID = NOT 0"

definition e_key :: "32 word \<Rightarrow> eventtype \<Rightarrow> 64 word" where
  "e_key ent_id event = push_bit 32 (ucast ent_id) OR ucast event"

text \<open>
  The state the event bus works on: the handler table (a hash map from keys to vectors
  of handlers), the event queue, the simulation state that \<open>G_GetSimState()\<close> reads, and
  \<open>world\<close>, everything else that a handler may read and write.
\<close>

record 'w evstate =
  s_event_handler_table :: "64 word \<rightharpoonup> handler_desc list"
  s_event_queue :: "event list"
  sim_state :: "32 word"
  world :: 'w

definition queue_event_pop :: "event list \<Rightarrow> (event \<times> event list) option" where
  \<comment> \<open>Modelled from the spec: the queue of \<open>lib/public/queue.h\<close> (absent) is a FIFO;
      a pop takes from the front and fails on the empty queue.\<close>
  "queue_event_pop q = (case q of [] \<Rightarrow> None | e # q' \<Rightarrow> Some (e, q'))"

definition e_register_handler :: "64 word \<Rightarrow> handler_desc \<Rightarrow> 'w evstate \<Rightarrow> bool \<times> 'w evstate" where
  "e_register_handler key desc st =
     (case s_event_handler_table st key of
        None \<Rightarrow> (True, st\<lparr>s_event_handler_table := (s_event_handler_table st)(key \<mapsto> [desc])\<rparr>)
      | Some vec \<Rightarrow>
          (True, st\<lparr>s_event_handler_table := (s_event_handler_table st)(key \<mapsto> vec @ [desc])\<rparr>))"

definition E_Global_Register ::
  "eventtype \<Rightarrow> nat \<Rightarrow> nat \<Rightarrow> 32 word \<Rightarrow> 'w evstate \<Rightarrow> bool \<times> 'w evstate" where
  "E_Global_Register event h arg sm =
     e_register_handler (e_key GLOBAL_ID event)
       \<lparr>hd_type = HANDLER_TYPE_ENGINE, handler = h, user_arg = arg, simmask = sm\<rparr>"

definition E_Entity_Register ::
  "eventtype \<Rightarrow> 32 word \<Rightarrow> nat \<Rightarrow> nat \<Rightarrow> 32 word \<Rightarrow> 'w evstate \<Rightarrow> bool \<times> 'w evstate" where
  "E_Entity_Register event ent_uid h arg sm =
     e_register_handler (e_key ent_uid event)
       \<lparr>hd_type = HANDLER_TYPE_ENGINE, handler = h, user_arg = arg, simmask = sm\<rparr>"

text \<open>
  What running a handler does is not the event bus's business: \<open>run elem event\<close> is
  the effect on the state of calling the engine function or the script callable of
  \<open>elem\<close> for \<open>event\<close>. A handler may do to the state whatever the engine lets it do:
  queue events, register and unregister handlers, change the simulation state.
\<close>

type_synonym 'w handler_run = "handler_desc \<Rightarrow> event \<Rightarrow> 'w evstate \<Rightarrow> 'w evstate"

text \<open>
  The loop of \<open>e_handle_event\<close> over the handlers \<open>vec\<close> not yet visited; \<open>ss\<close> is
  the simulation state read once before the loop, \<open>key\<close> the key of the event and
  \<open>vec0\<close> the vector found under it. The local \<open>vec\<close> of the C function is a copy of
  the vector's header only: its array of handlers is the one of the table's vector,
  which \<open>vec_hd_push\<close> may move and \<open>vec_hd_del\<close> shifts (\<open>vec.h\<close> is not among the
  sources at hand). What the loop reads at its next index once a handler has changed
  the vector under the key being dispatched depends on that; the model says nothing
  about it and ends there with \<open>None\<close>.
\<close>

fun e_handle_vec ::
  "'w handler_run \<Rightarrow> event \<Rightarrow> 32 word \<Rightarrow> 64 word \<Rightarrow> handler_desc list \<Rightarrow> handler_desc list
     \<Rightarrow> 'w evstate \<Rightarrow> 'w evstate option" where
  "e_handle_vec run event ss key vec0 [] st = Some st"
| "e_handle_vec run event ss key vec0 (elem # vec) st =
     (if s_event_handler_table st key \<noteq> Some vec0 then None
      else if simmask elem AND ss = 0 then e_handle_vec run event ss key vec0 vec st
      else e_handle_vec run event ss key vec0 vec (run elem event st))"

definition e_handle_event :: "'w handler_run \<Rightarrow> event \<Rightarrow> 'w evstate \<Rightarrow> 'w evstate option" where
  "e_handle_event run event st =
     (let key = e_key (receiver_id event) (ev_type event);
          ss = sim_state st
      in case s_event_handler_table st key of
           None \<Rightarrow> Some st
         | Some vec \<Rightarrow> e_handle_vec run event ss key vec vec st)"

text \<open>
  The loop \<open>while(queue_event_pop(&s_event_queue, &event))\<close> of \<open>E_ServiceQueue\<close>.
  Handlers may queue further events, so the loop need not end: the model counts its
  iterations down from a fuel. The result is \<open>None\<close> when the fuel does not suffice,
  or when a dispatch has ended with \<open>None\<close>.
\<close>

fun service_loop :: "'w handler_run \<Rightarrow> nat \<Rightarrow> 'w evstate \<Rightarrow> 'w evstate option" where
  "service_loop run 0 st =
     (case queue_event_pop (s_event_queue st) of
        None \<Rightarrow> Some st
      | Some (event, q) \<Rightarrow> None)"
| "service_loop run (Suc fuel) st =
     (case queue_event_pop (s_event_queue st) of
        None \<Rightarrow> Some st
      | Some (event, q) \<Rightarrow>
          (case e_handle_event run event (st\<lparr>s_event_queue := q\<rparr>) of
             None \<Rightarrow> None
           | Some st1 \<Rightarrow> service_loop run fuel st1))"

definition global_event :: "eventtype \<Rightarrow> event" where
  "global_event ev = \<lparr>ev_type = ev, ev_arg = 0, ev_source = ES_ENGINE, receiver_id = GLOBAL_ID\<rparr>"

definition E_ServiceQueue :: "'w handler_run \<Rightarrow> nat \<Rightarrow> 'w evstate \<Rightarrow> 'w evstate option" where
  "E_ServiceQueue run fuel st =
     (case e_handle_event run (global_event EVENT_UPDATE_START) st of
        None \<Rightarrow> None
      | Some st1 \<Rightarrow>
          (case service_loop run fuel st1 of
             None \<Rightarrow> None
           | Some st2 \<Rightarrow>
               (case e_handle_event run (global_event EVENT_UPDATE_UI) st2 of
                  None \<Rightarrow> None
                | Some st3 \<Rightarrow> e_handle_event run (global_event EVENT_UPDATE_END) st3)))"

text \<open>
  In the words of the specification: the handlers that a dispatch of \<open>event\<close> in the
  state \<open>st\<close> invokes are those registered under the event's exact key whose mask meets
  the simulation state of \<open>st\<close>, in the order of their registration; the dispatch runs
  them one after the other.
\<close>

definition handlers_for :: "'w evstate \<Rightarrow> event \<Rightarrow> handler_desc list" where
  "handlers_for st event =
     filter (\<lambda>h. simmask h AND sim_state st \<noteq> 0)
       (case s_event_handler_table st (e_key (receiver_id event) (ev_type event)) of
          None \<Rightarrow> []
        | Some vec \<Rightarrow> vec)"

definition dispatch :: "'w handler_run \<Rightarrow> event \<Rightarrow> 'w evstate \<Rightarrow> 'w evstate" where
  "dispatch run event st = fold (\<lambda>h. run h event) (handlers_for st event) st"

text \<open>
  In the words of the specification: the events \<open>es\<close> are serviced first in, first out,
  until the queue is empty. Each of them is at the front of the queue when its turn
  comes and is taken off and dispatched; behind the last the queue is empty.
  \<open>drain\<close> is the state this ends in.
\<close>

fun serviced_fifo :: "'w handler_run \<Rightarrow> event list \<Rightarrow> 'w evstate \<Rightarrow> bool" where
  "serviced_fifo run [] st = (s_event_queue st = [])"
| "serviced_fifo run (e # es) st =
     (s_event_queue st \<noteq> [] \<and> hd (s_event_queue st) = e
      \<and> serviced_fifo run es (dispatch run e (st\<lparr>s_event_queue := tl (s_event_queue st)\<rparr>)))"

fun drain :: "'w handler_run \<Rightarrow> event list \<Rightarrow> 'w evstate \<Rightarrow> 'w evstate" where
  "drain run [] st = st"
| "drain run (e # es) st =
     drain run es (dispatch run e (st\<lparr>s_event_queue := tl (s_event_queue st)\<rparr>))"

text \<open>
  Handlers that only add to the queue, at its back; handlers that leave the queue as
  it is; and handlers that leave the vector under the key of the event they run for
  as it is.
\<close>

definition appends_only :: "'w handler_run \<Rightarrow> bool" where
  "appends_only run = (\<forall>h e st. \<exists>ps. s_event_queue (run h e st) = s_event_queue st @ ps)"

definition queue_untouched :: "'w handler_run \<Rightarrow> bool" where
  "queue_untouched run = (\<forall>h e st. s_event_queue (run h e st) = s_event_queue st)"

definition keeps_vector :: "'w handler_run \<Rightarrow> bool" where
  "keeps_vector run =
     (\<forall>h e st. s_event_handler_table (run h e st) (e_key (receiver_id e) (ev_type e))
                = s_event_handler_table st (e_key (receiver_id e) (ev_type e)))"

subsection \<open>A concrete bus\<close>

text \<open>
  Two handlers for the global update-start event, of which the second fires only while
  paused, one for the animation events of entity 7, one for the global update-ui event
  that fires only while paused, and one for the global update-end event that fires
  only while running. The handlers of \<open>ex_run\<close> log their address in the world and
  touch nothing else; with \<open>ex_pause_run\<close> the first handler pauses the simulation as
  well.
\<close>

definition G_RUNNING :: "32 word" where
  \<comment> \<open>Modelled from the spec: the enumerators of \<open>enum simstate\<close> (\<open>game.h\<close>, absent)
      are distinct bits of the masks.\<close>
  "G_RUNNING = push_bit 0 1"

definition G_PAUSED_FULL :: "32 word" where
  \<comment> \<open>Modelled from the spec: see \<open>G_RUNNING\<close>.\<close>
  "G_PAUSED_FULL = push_bit 1 1"

definition ex_handler :: "nat \<Rightarrow> 32 word \<Rightarrow> handler_desc" where
  "ex_handler h sm = \<lparr>hd_type = HANDLER_TYPE_ENGINE, handler = h, user_arg = 0, simmask = sm\<rparr>"

definition ex_event :: event where
  "ex_event = \<lparr>ev_type = EVENT_ANIM_CYCLE_FINISHED, ev_arg = 0, ev_source = ES_ENGINE,
                receiver_id = 7\<rparr>"

definition ex_bus :: "nat list evstate" where
  "ex_bus = \<lparr>s_event_handler_table =
               [e_key GLOBAL_ID EVENT_UPDATE_START \<mapsto>
                  [ex_handler 1 G_RUNNING, ex_handler 2 G_PAUSED_FULL],
                e_key 7 EVENT_ANIM_CYCLE_FINISHED \<mapsto> [ex_handler 3 (G_RUNNING OR G_PAUSED_FULL)],
                e_key GLOBAL_ID EVENT_UPDATE_UI \<mapsto> [ex_handler 5 G_PAUSED_FULL],
                e_key GLOBAL_ID EVENT_UPDATE_END \<mapsto> [ex_handler 4 G_RUNNING]],
             s_event_queue = [ex_event],
             sim_state = G_RUNNING,
             world = []\<rparr>"

definition ex_run :: "nat list handler_run" where
  "ex_run h e st = st\<lparr>world := world st @ [handler h]\<rparr>"

definition ex_pause_run :: "nat list handler_run" where
  "ex_pause_run h e st =
     (if handler h = 1 then st\<lparr>world := world st @ [handler h], sim_state := G_PAUSED_FULL\<rparr>
      else st\<lparr>world := world st @ [handler h]\<rparr>)"

section \<open>The game state\<close>

text \<open>
  Entities live in memory and the game state holds pointers to them: \<open>eptr\<close> is the
  address of a \<open>struct entity\<close>, and \<open>heap\<close> is the memory that holds the
  entities.
\<close>

type_synonym eptr = nat

datatype diplomacy_state = DIPLOMACY_STATE_ALLY | DIPLOMACY_STATE_PEACE | DIPLOMACY_STATE_WAR

record faction =
  fac_name :: string
  color :: vec3_t
  controllable :: bool

record render_workspace =
  commands :: "nat list"
  args :: "nat list"

definition MAX_FACTIONS :: nat where
  \<comment> \<open>Modelled from the spec: the capacity of the small fixed-capacity faction array
      (\<open>game.h\<close>, absent).\<close>
  "MAX_FACTIONS = 16"

definition MAX_FAC_NAME_LEN :: nat where
  \<comment> \<open>Modelled from the spec: the size of a faction's name buffer (\<open>game.h\<close>,
      absent); \<open>scene.c\<close> reads names of at most 31 characters into 32 bytes.\<close>
  "MAX_FAC_NAME_LEN = 32"

text \<open>
  \<open>struct gamestate\<close> (the static \<open>s_gs\<close>), with the entity memory and the event
  queue of \<open>event.c\<close> beside it. The hash tables \<open>active\<close> and \<open>dynamic\<close> are lists
  of key and value, whose order stands for the order in which \<open>kh_foreach\<close> visits
  them; the arrays are functions of the index. Cameras, the selection and the bounding
  boxes of the visible entities,
  which no function below reads, are left out.
\<close>

record gamestate =
  heap :: "eptr \<rightharpoonup> entity"
  events :: "event list"
  ss :: "32 word"
  map_ptr :: "nat option"
  prev_tick_map :: "nat option"
  active_ents :: "(32 word \<times> eptr) list"
  dynamic_ents :: "(32 word \<times> eptr) list"
  visible :: "eptr list"
  light_visible :: "eptr list"
  deleted :: "eptr list"
  factions :: "nat \<Rightarrow> faction"
  num_factions :: nat
  diplomacy_table :: "nat \<Rightarrow> nat \<Rightarrow> diplomacy_state"
  ws :: "nat \<Rightarrow> render_workspace"
  curr_ws_idx :: int

subsection \<open>Hash tables\<close>

definition kh_get :: "('k \<times> 'v) list \<Rightarrow> 'k \<Rightarrow> 'v option" where
  "kh_get h k = map_of h k"

definition kh_del :: "('k \<times> 'v) list \<Rightarrow> 'k \<Rightarrow> ('k \<times> 'v) list" where
  "kh_del h k = filter (\<lambda>kv. fst kv \<noteq> k) h"

text \<open>
  \<open>kh_put\<close> followed by the store of the value: the result code is 0 when the key is
  present already, and the table is then as it was. The bucket that \<open>khash\<close> gives
  a new key is decided by its hash; the model puts the new key behind the others, so
  that the order of its list is the order of insertion, which need not be the order in
  which \<open>kh_foreach\<close> comes by the buckets. Nothing below is stated about where
  in the order of visits a new key stands.
\<close>

definition kh_put :: "('k \<times> 'v) list \<Rightarrow> 'k \<Rightarrow> 'v \<Rightarrow> int \<times> ('k \<times> 'v) list" where
  "kh_put h k v = (if map_of h k = None then (1, h @ [(k, v)]) else (0, h))"

subsection \<open>Entities\<close>

text \<open>
  \<open>G_AddEntity\<close>. The calls into the combat, position and movement modules act on
  state of theirs and are left out. \<open>None\<close> is the failed assertion.
\<close>

definition G_AddEntity :: "eptr \<Rightarrow> gamestate \<Rightarrow> (bool \<times> gamestate) option" where
  "G_AddEntity p s =
     (case heap s p of
        None \<Rightarrow> None
      | Some ent \<Rightarrow>
          (case kh_put (active_ents s) (uid ent) p of (ret, act) \<Rightarrow>
             if ret = -1 \<or> ret = 0 then Some (False, s)
             else
               let s1 = s\<lparr>active_ents := act\<rparr> in
                 if flag_set (flags ent) ENTITY_FLAG_STATIC then Some (True, s1)
                 else
                   (case kh_put (dynamic_ents s1) (uid ent) p of (ret', dyn) \<Rightarrow>
                      if ret' \<noteq> -1 \<and> ret' \<noteq> 0 then Some (True, s1\<lparr>dynamic_ents := dyn\<rparr>)
                      else None)))"

definition G_RemoveEntity :: "eptr \<Rightarrow> gamestate \<Rightarrow> (bool \<times> gamestate) option" where
  "G_RemoveEntity p s =
     (case heap s p of
        None \<Rightarrow> None
      | Some ent \<Rightarrow>
          (case kh_get (active_ents s) (uid ent) of
             None \<Rightarrow> Some (False, s)
           | Some _ \<Rightarrow>
               let s1 = s\<lparr>active_ents := kh_del (active_ents s) (uid ent)\<rparr> in
                 if \<not> flag_set (flags ent) ENTITY_FLAG_STATIC then
                   (case kh_get (dynamic_ents s1) (uid ent) of
                      None \<Rightarrow> None
                    | Some _ \<Rightarrow>
                        Some (True, s1\<lparr>dynamic_ents := kh_del (dynamic_ents s1) (uid ent)\<rparr>))
                 else Some (True, s1)))"

definition G_SafeFree :: "eptr \<Rightarrow> gamestate \<Rightarrow> gamestate" where
  "G_SafeFree p s = s\<lparr>deleted := deleted s @ [p]\<rparr>"

definition G_Zombiefy :: "eptr \<Rightarrow> gamestate \<Rightarrow> gamestate option" where
  "G_Zombiefy p s =
     (case heap s p of
        None \<Rightarrow> None
      | Some ent \<Rightarrow>
          (case (if \<not> flag_set (flags ent) ENTITY_FLAG_STATIC then
                   (case kh_get (dynamic_ents s) (uid ent) of
                      None \<Rightarrow> None
                    | Some _ \<Rightarrow> Some (s\<lparr>dynamic_ents := kh_del (dynamic_ents s) (uid ent)\<rparr>))
                 else Some s) of
             None \<Rightarrow> None
           | Some s1 \<Rightarrow>
               let f1 = flags ent AND NOT ENTITY_FLAG_SELECTABLE;
                   f2 = f1 AND NOT ENTITY_FLAG_COLLISION;
                   f3 = f2 AND NOT ENTITY_FLAG_COMBATABLE;
                   f4 = f3 AND NOT ENTITY_FLAG_ANIMATED;
                   f5 = f4 OR ENTITY_FLAG_INVISIBLE;
                   f6 = f5 OR ENTITY_FLAG_STATIC;
                   f7 = f6 OR ENTITY_FLAG_ZOMBIE
               in Some (s1\<lparr>heap := (heap s1)(p \<mapsto> ent\<lparr>flags := f7\<rparr>)\<rparr>)))"

subsection \<open>The tick\<close>

text \<open>
  What \<open>G_Update\<close> takes from outside: the two frustum tests on the entity's current
  bounding box, and the readings of the clock in the \<open>A_Update\<close> of each entity.
\<close>

record update_env =
  cam_hit :: "eptr \<Rightarrow> entity \<Rightarrow> bool"
  light_hit :: "eptr \<Rightarrow> entity \<Rightarrow> bool"
  ticks_at :: "eptr \<Rightarrow> 32 word \<times> 32 word"

text \<open>
  The body of the \<open>kh_foreach\<close> of \<open>G_Update\<close> for one entity, and the loop.
\<close>

definition update_ent :: "update_env \<Rightarrow> eptr \<Rightarrow> gamestate \<Rightarrow> gamestate option" where
  "update_ent env p s =
     (case heap s p of
        None \<Rightarrow> None
      | Some cur \<Rightarrow>
          (case (if ss s = G_RUNNING \<and> flag_set (flags cur) ENTITY_FLAG_ANIMATED then
                   (case A_Update (fst (ticks_at env p)) (snd (ticks_at env p)) cur (events s) of
                      None \<Rightarrow> None
                    | Some (cur', q') \<Rightarrow>
                        Some (cur', s\<lparr>heap := (heap s)(p \<mapsto> cur'), events := q'\<rparr>))
                 else Some (cur, s)) of
             None \<Rightarrow> None
           | Some (cur1, s1) \<Rightarrow>
               if \<not> flag_set (flags cur1) ENTITY_FLAG_COLLISION then Some s1
               else if flag_set (flags cur1) ENTITY_FLAG_INVISIBLE then Some s1
               else
                 let s2 = (if cam_hit env p cur1
                           then s1\<lparr>visible := visible s1 @ [p]\<rparr> else s1);
                     s3 = (if light_hit env p cur1
                           then s2\<lparr>light_visible := light_visible s2 @ [p]\<rparr> else s2)
                 in Some s3))"

fun update_ents :: "update_env \<Rightarrow> eptr list \<Rightarrow> gamestate \<Rightarrow> gamestate option" where
  "update_ents env [] s = Some s"
| "update_ents env (p # ps) s =
     (case update_ent env p s of
        None \<Rightarrow> None
      | Some s1 \<Rightarrow> update_ents env ps s1)"

definition G_Update :: "update_env \<Rightarrow> gamestate \<Rightarrow> gamestate option" where
  "G_Update env s =
     update_ents env (map snd (active_ents s)) (s\<lparr>visible := [], light_visible := []\<rparr>)"

text \<open>
  The flags \<open>G_Zombiefy\<close> leaves.
\<close>

definition zombie_flags :: "flags_t \<Rightarrow> bool" where
  "zombie_flags fl =
     (\<not> flag_set fl ENTITY_FLAG_SELECTABLE \<and> \<not> flag_set fl ENTITY_FLAG_COLLISION
      \<and> \<not> flag_set fl ENTITY_FLAG_COMBATABLE \<and> \<not> flag_set fl ENTITY_FLAG_ANIMATED
      \<and> flag_set fl ENTITY_FLAG_INVISIBLE \<and> flag_set fl ENTITY_FLAG_STATIC
      \<and> flag_set fl ENTITY_FLAG_ZOMBIE)"

text \<open>
  An entity that \<open>G_Update\<close> skips: it lacks the collision flag or carries the
  invisible flag.
\<close>

definition hidden :: "eptr \<Rightarrow> gamestate \<Rightarrow> bool" where
  "hidden p s = (case heap s p of None \<Rightarrow> False
     | Some e \<Rightarrow> \<not> flag_set (flags e) ENTITY_FLAG_COLLISION \<or> flag_set (flags e) ENTITY_FLAG_INVISIBLE)"

subsection \<open>Factions and diplomacy\<close>

text \<open>
  \<open>memmove\<close> of \<open>n\<close> elements within an array, from index \<open>src\<close> to index
  \<open>dst\<close>.
\<close>

definition memmove :: "(nat \<Rightarrow> 'a) \<Rightarrow> nat \<Rightarrow> nat \<Rightarrow> nat \<Rightarrow> (nat \<Rightarrow> 'a)" where
  "memmove a dst src n = (\<lambda>i. if dst \<le> i \<and> i < dst + n then a (src + (i - dst)) else a i)"

definition G_AddFaction :: "string \<Rightarrow> vec3_t \<Rightarrow> gamestate \<Rightarrow> bool \<times> gamestate" where
  "G_AddFaction name col s =
     (if num_factions s = MAX_FACTIONS then (False, s)
      else if length name \<ge> MAX_FAC_NAME_LEN then (False, s)
      else
        let new_fac_id = num_factions s;
            s1 = s\<lparr>factions := (factions s)
                      (new_fac_id := \<lparr>fac_name = name, color = col, controllable = True\<rparr>),
                    num_factions := num_factions s + 1\<rparr>;
            tbl = fold (\<lambda>i t.
                      let t1 = t(i := (t i)(new_fac_id := DIPLOMACY_STATE_PEACE))
                      in t1(new_fac_id := (t1 new_fac_id)(i := DIPLOMACY_STATE_PEACE)))
                    [0..<new_fac_id] (diplomacy_table s1)
        in (True, s1\<lparr>diplomacy_table := tbl\<rparr>))"

text \<open>
  The loop of \<open>G_RemoveFaction\<close> over the buckets of \<open>active\<close>: \<open>es\<close> are the
  buckets not yet visited, and a bucket whose entry has been deleted meanwhile is
  skipped (\<open>kh_exist\<close>).
\<close>

fun remove_faction_ents ::
  "int \<Rightarrow> (32 word \<times> eptr) list \<Rightarrow> gamestate \<Rightarrow> gamestate option" where
  "remove_faction_ents fid [] s = Some s"
| "remove_faction_ents fid ((k, p) # es) s =
     (if kh_get (active_ents s) k \<noteq> Some p then remove_faction_ents fid es s
      else
        (case heap s p of
           None \<Rightarrow> None
         | Some cur \<Rightarrow>
             if faction_id cur = fid then
               (case G_RemoveEntity p s of
                  None \<Rightarrow> None
                | Some (_, s1) \<Rightarrow> remove_faction_ents fid es s1)
             else if faction_id cur > fid then
               remove_faction_ents fid es
                 (s\<lparr>heap := (heap s)(p \<mapsto> cur\<lparr>faction_id := faction_id cur - 1\<rparr>)\<rparr>)
             else remove_faction_ents fid es s))"

definition G_RemoveFaction :: "int \<Rightarrow> gamestate \<Rightarrow> (bool \<times> gamestate) option" where
  "G_RemoveFaction fid s =
     (if num_factions s < 2 then Some (False, s)
      else if fid < 0 \<or> fid \<ge> int (num_factions s) then Some (False, s)
      else
        (case remove_faction_ents fid (active_ents s) s of
           None \<Rightarrow> None
         | Some s1 \<Rightarrow>
             let f = nat fid;
                 n = num_factions s1;
                 rows = memmove (diplomacy_table s1) f (f + 1) (n - f - 1);
                 tbl = fold (\<lambda>i t. t(i := memmove (t i) f (f + 1) (n - f - 1))) [0..<n - 1] rows;
                 facs = memmove (factions s1) f (f + 1) (n - f - 1)
             in Some (True, s1\<lparr>diplomacy_table := tbl, factions := facs,
                                 num_factions := n - 1\<rparr>)))"

definition G_SetDiplomacyState ::
  "int \<Rightarrow> int \<Rightarrow> diplomacy_state \<Rightarrow> gamestate \<Rightarrow> bool \<times> gamestate" where
  "G_SetDiplomacyState fac_id_a fac_id_b ds s =
     (if fac_id_a < 0 \<or> fac_id_a \<ge> int (num_factions s) then (False, s)
      else if fac_id_b < 0 \<or> fac_id_b \<ge> int (num_factions s) then (False, s)
      else if fac_id_a = fac_id_b then (False, s)
      else
        let a = nat fac_id_a; b = nat fac_id_b;
            t1 = (diplomacy_table s)(a := (diplomacy_table s a)(b := ds));
            t2 = t1(b := (t1 b)(a := ds))
        in (True, s\<lparr>diplomacy_table := t2\<rparr>))"

text \<open>
  The table is symmetric on the first \<open>n\<close> factions; the index of a surviving
  faction after the removal of faction \<open>f\<close>.
\<close>

definition diplomacy_symmetric :: "nat \<Rightarrow> (nat \<Rightarrow> nat \<Rightarrow> diplomacy_state) \<Rightarrow> bool" where
  "diplomacy_symmetric n t = (\<forall>a < n. \<forall>b < n. t a b = t b a)"

definition renumbered :: "nat \<Rightarrow> nat \<Rightarrow> nat" where
  "renumbered f a = (if a > f then a - 1 else a)"

subsection \<open>The two workspaces\<close>

text \<open>
  The remainder \<open>a % b\<close> of C, which truncates towards zero.
\<close>

definition c_rem :: "int \<Rightarrow> int \<Rightarrow> int" where
  "c_rem a b = sgn a * (\<bar>a\<bar> mod \<bar>b\<bar>)"

definition R_ClearWS :: "render_workspace \<Rightarrow> render_workspace" where
  \<comment> \<open>Modelled from the spec: \<open>R_ClearWS\<close> of the render module (absent) resets, that is
      clears, the workspace's arena and its command queue.\<close>
  "R_ClearWS w = w\<lparr>commands := [], args := []\<rparr>"

definition AL_EntityFree :: "eptr \<Rightarrow> (eptr \<rightharpoonup> entity) \<Rightarrow> (eptr \<rightharpoonup> entity)" where
  \<comment> \<open>Modelled from the spec: \<open>AL_EntityFree\<close> of the asset loader (absent) frees the
      entity's memory.\<close>
  "AL_EntityFree p h = h(p := None)"

text \<open>
  A workspace pointer \<open>&s_gs.ws[i]\<close> is the index \<open>i\<close>.
\<close>

definition G_GetSimWS :: "gamestate \<Rightarrow> int" where
  "G_GetSimWS s = curr_ws_idx s"

definition G_GetRenderWS :: "gamestate \<Rightarrow> int" where
  "G_GetRenderWS s = c_rem (curr_ws_idx s + 1) 2"

text \<open>
  \<open>G_SwapBuffers\<close>; \<open>None\<close> is the failed assertion that the queue of the render
  workspace has been drained, or an index outside the array of two workspaces.
\<close>

definition G_SwapBuffers :: "gamestate \<Rightarrow> gamestate option" where
  "G_SwapBuffers s =
     (let sim_idx = curr_ws_idx s;
          render_idx = c_rem (sim_idx + 1) 2;
          s1 = (if map_ptr s \<noteq> None then s\<lparr>prev_tick_map := map_ptr s\<rparr> else s);
          s2 = s1\<lparr>heap := fold AL_EntityFree (deleted s1) (heap s1)\<rparr>;
          s3 = s2\<lparr>deleted := []\<rparr>
      in if render_idx < 0 \<or> render_idx \<ge> 2 then None
         else if length (commands (ws s3 (nat render_idx))) \<noteq> 0 then None
         else Some (s3\<lparr>ws := (ws s3)(nat render_idx := R_ClearWS (ws s3 (nat render_idx))),
                       curr_ws_idx := render_idx\<rparr>))"

subsection \<open>The render input\<close>

text \<open>
  The render states of the two draw lists. \<open>inv_bind_pose\<close> is the address of the
  skeleton's array of inverse bind matrices, \<open>render_private\<close> an opaque handle.
\<close>

record 'm ent_stat_rstate =
  stat_render_private :: nat
  stat_model :: 'm

record 'm ent_anim_rstate =
  anim_render_private :: nat
  anim_model :: 'm
  njoints :: nat
  curr_pose :: "'m list"
  inv_bind_pose :: nat

record 'm render_input =
  shadows :: bool
  cam_vis_stat :: "'m ent_stat_rstate list"
  cam_vis_anim :: "'m ent_anim_rstate list"
  light_vis_stat :: "'m ent_stat_rstate list"
  light_vis_anim :: "'m ent_anim_rstate list"

text \<open>
  What the producer takes from outside: the matrix library, the model matrix of an
  entity (\<open>Entity_ModelMatrix\<close>), the shadows setting, and the fuel of the joint
  walks.
\<close>

record 'm render_env =
  pfm_ops :: "'m pfm"
  Entity_ModelMatrix :: "entity \<Rightarrow> 'm"
  shadows_setting :: bool
  walk_fuel :: nat

fun walks_done :: "'m walk list \<Rightarrow> 'm list option" where
  "walks_done [] = Some []"
| "walks_done (Walk_Done m # rest) = map_option ((#) m) (walks_done rest)"
| "walks_done (_ # rest) = None"

text \<open>
  \<open>A_GetRenderState\<close>: the pose matrix of every joint, the joint count and the
  pointer to the inverse bind matrices. \<open>None\<close> is the failed assertion that the
  entity is animated, or a walk that faults or does not return within the fuel.
\<close>

definition A_GetRenderState :: "'m pfm \<Rightarrow> nat \<Rightarrow> entity \<Rightarrow> (nat \<times> 'm list \<times> nat) option" where
  "A_GetRenderState P fuel ent =
     (if \<not> flag_set (flags ent) ENTITY_FLAG_ANIMATED then None
      else
        let priv = anim_private ent in
          (case walks_done (map (\<lambda>j. a_make_pose_mat P fuel ent (int j) (skel priv))
                              [0..<num_joints (skel priv)]) of
             None \<Rightarrow> None
           | Some poses \<Rightarrow> Some (num_joints (skel priv), poses, inv_bind_poses (skel priv))))"

fun g_make_draw_list ::
  "'m render_env \<Rightarrow> (eptr \<rightharpoonup> entity) \<Rightarrow> eptr list
     \<Rightarrow> 'm ent_stat_rstate list \<times> 'm ent_anim_rstate list
     \<Rightarrow> ('m ent_stat_rstate list \<times> 'm ent_anim_rstate list) option" where
  "g_make_draw_list env h [] out = Some out"
| "g_make_draw_list env h (p # ents) (out_stat, out_anim) =
     (case h p of
        None \<Rightarrow> None
      | Some cur \<Rightarrow>
          let model = Entity_ModelMatrix env cur in
            if flag_set (flags cur) ENTITY_FLAG_ANIMATED then
              (case A_GetRenderState (pfm_ops env) (walk_fuel env) cur of
                 None \<Rightarrow> None
               | Some (nj, pose, inv_bind) \<Rightarrow>
                   g_make_draw_list env h ents
                     (out_stat,
                      out_anim @ [\<lparr>anim_render_private = render_private cur, anim_model = model,
                                    njoints = nj, curr_pose = pose, inv_bind_pose = inv_bind\<rparr>]))
            else
              g_make_draw_list env h ents
                (out_stat @ [\<lparr>stat_render_private = render_private cur, stat_model = model\<rparr>],
                 out_anim))"

text \<open>
  \<open>g_create_render_input\<close>; the two assertions on the sizes of the lists are the
  last test, and \<open>None\<close> when one of them fails.
\<close>

definition g_create_render_input :: "'m render_env \<Rightarrow> gamestate \<Rightarrow> 'm render_input option" where
  "g_create_render_input env s =
     (case g_make_draw_list env (heap s) (visible s) ([], []) of
        None \<Rightarrow> None
      | Some (cvs, cva) \<Rightarrow>
          (case g_make_draw_list env (heap s) (light_visible s) ([], []) of
             None \<Rightarrow> None
           | Some (lvs, lva) \<Rightarrow>
               if length cvs + length cva = length (visible s)
                  \<and> length lvs + length lva = length (light_visible s)
               then Some \<lparr>shadows = shadows_setting env, cam_vis_stat = cvs, cam_vis_anim = cva,
                          light_vis_stat = lvs, light_vis_anim = lva\<rparr>
               else None))"

text \<open>
  In the words of the specification: the entities of a visibility set, and of these
  the animated ones and the others, by their render handles.
\<close>

definition vis_ents :: "(eptr \<rightharpoonup> entity) \<Rightarrow> eptr list \<Rightarrow> entity list" where
  "vis_ents h ps = map (\<lambda>p. the (h p)) ps"

definition animated :: "entity \<Rightarrow> bool" where
  "animated e = flag_set (flags e) ENTITY_FLAG_ANIMATED"

subsection \<open>A concrete game state\<close>

text \<open>
  Three factions; the animated entity 7 of faction 0 at address 10, a static entity 8 of
  faction 1 at address 11, both active and visible, and an entity at address 12 that
  waits on the deferred-free list. The simulation writes workspace 0; the renderer has
  drained workspace 1, whose arena still holds the arguments of the last frame.
\<close>

definition ex_static_ent :: entity where
  "ex_static_ent = (ex_ent ANIM_MODE_LOOP 0)
     \<lparr>uid := 8, flags := ENTITY_FLAG_COLLISION OR ENTITY_FLAG_STATIC, faction_id := 1,
      render_private := 2\<rparr>"

definition ex_table :: "nat \<Rightarrow> nat \<Rightarrow> diplomacy_state" where
  "ex_table a b =
     (if (a = 0 \<and> b = 1) \<or> (a = 1 \<and> b = 0) then DIPLOMACY_STATE_ALLY
      else if (a = 0 \<and> b = 2) \<or> (a = 2 \<and> b = 0) then DIPLOMACY_STATE_WAR
      else DIPLOMACY_STATE_PEACE)"

definition ex_gs :: gamestate where
  "ex_gs = \<lparr>heap = [10 \<mapsto> ex_ent ANIM_MODE_LOOP 0, 11 \<mapsto> ex_static_ent,
                    12 \<mapsto> ex_static_ent\<lparr>uid := 9\<rparr>],
            events = [],
            ss = G_RUNNING,
            map_ptr = None,
            prev_tick_map = None,
            active_ents = [(7, 10), (8, 11)],
            dynamic_ents = [(7, 10)],
            visible = [10, 11],
            light_visible = [11],
            deleted = [12],
            factions = (\<lambda>i. \<lparr>fac_name = ''f'', color = (0, 0, 0), controllable = True\<rparr>),
            num_factions = 3,
            diplomacy_table = ex_table,
            ws = (\<lambda>i. \<lparr>commands = [], args = [1, 2, 3]\<rparr>),
            curr_ws_idx = 0\<rparr>"

definition ex_render_env :: "(real \<times> real) render_env" where
  "ex_render_env = \<lparr>pfm_ops = ex_pfm, Entity_ModelMatrix = (\<lambda>e. (1, 0)),
                    shadows_setting = True, walk_fuel = 3\<rparr>"

definition ex_update_env :: update_env where
  "ex_update_env = \<lparr>cam_hit = (\<lambda>p e. True), light_hit = (\<lambda>p e. True),
                    ticks_at = (\<lambda>p. (1400, 1400))\<rparr>"

section \<open>Scene files\<close>

text \<open>
  \<open>struct attr\<close> of \<open>scene.h\<close>: a key, a type tag and a union of values. Reading a
  member of the union other than the one last written has no defined result.
\<close>

datatype attr_type = TYPE_STRING | TYPE_QUAT | TYPE_VEC3 | TYPE_BOOL | TYPE_FLOAT | TYPE_INT

datatype attr_value =
  As_string string | As_quat quat_t | As_vec3 vec3_t | As_bool bool | As_float real | As_int int

record attr =
  attr_key :: string
  attr_ty :: attr_type
  val :: attr_value

definition ATTR_KEY_SIZE :: nat where
  \<comment> \<open>Modelled from the spec: the size of the key buffer of \<open>struct attr\<close>
      (\<open>scene.h\<close>, absent), as that of its string value, which \<open>%63s\<close> fills.\<close>
  "ATTR_KEY_SIZE = 64"

text \<open>
  The conversions of the C library. Each \<open>sscanf\<close> call of \<open>scene.c\<close> is a function
  of the scanned text that gives the return value of the call and what it stored; the
  code takes a return value other than 0 for success.
\<close>

record libc =
  sscanf_num_factions :: "string \<Rightarrow> int \<times> nat"
  sscanf_faction :: "string \<Rightarrow> int \<times> string"
  sscanf_num_entities :: "string \<Rightarrow> int \<times> nat"
  sscanf_entity :: "string \<Rightarrow> int \<times> string \<times> string \<times> nat"
  sscanf_string :: "string \<Rightarrow> int \<times> string"
  sscanf_quat :: "string \<Rightarrow> int \<times> quat_t"
  sscanf_vec3 :: "string \<Rightarrow> int \<times> vec3_t"
  sscanf_d :: "string \<Rightarrow> int \<times> int"
  sscanf_f :: "string \<Rightarrow> int \<times> real"

text \<open>
  A stream is the list of the lines not yet read.
\<close>

definition READ_LINE :: "string list \<Rightarrow> (string \<times> string list) option" where
  \<comment> \<open>Modelled from the spec: the macro \<open>READ_LINE\<close> of \<open>asset_load.h\<close> (absent) reads the
      next line of the line-oriented file and jumps to the failure label at its end.\<close>
  "READ_LINE stream = (case stream of [] \<Rightarrow> None | line # rest \<Rightarrow> Some (line, rest))"

definition is_delim :: "char \<Rightarrow> bool" where
  "is_delim c = (c = CHR '' '' \<or> c = CHR 0x09)"

definition pf_strtok_r :: "string \<Rightarrow> (string \<times> string option) option" where
  \<comment> \<open>Modelled from the spec: \<open>pf_strtok_r\<close> of \<open>pf_string.h\<close> (absent) is \<open>strtok_r\<close>
      with the delimiters blank and tab: \<open>None\<close> is the null token; otherwise the token
      and the text behind the delimiter that ended it, if one did.\<close>
  "pf_strtok_r s =
     (let s1 = dropWhile is_delim s in
      if s1 = [] then None
      else Some (takeWhile (\<lambda>c. \<not> is_delim c) s1,
                 case dropWhile (\<lambda>c. \<not> is_delim c) s1 of [] \<Rightarrow> None | d # r \<Rightarrow> Some r))"

text \<open>
  The value of an attribute of the type named by \<open>token\<close>, whose text starts behind
  the token at \<open>rest\<close>. The outer \<open>None\<close> is a read through a null pointer or behind
  the end of the line; the inner \<open>None\<close> is \<open>goto fail\<close>.
\<close>

definition scene_parse_val ::
  "libc \<Rightarrow> string \<Rightarrow> string option \<Rightarrow> (attr_type \<times> attr_value) option option" where
  "scene_parse_val L token rest =
     (let next_token = (case rest of None \<Rightarrow> None | Some r \<Rightarrow> map_option fst (pf_strtok_r r)) in
      if token = ''string'' then
        (case next_token of
           None \<Rightarrow> None
         | Some t \<Rightarrow> (case sscanf_string L t of (rc, v) \<Rightarrow>
             if rc = 0 then Some None else Some (Some (TYPE_STRING, As_string v))))
      else if token = ''quat'' then
        (case rest of
           None \<Rightarrow> None
         | Some r \<Rightarrow> (case sscanf_quat L r of (rc, v) \<Rightarrow>
             if rc = 0 then Some None else Some (Some (TYPE_QUAT, As_quat v))))
      else if token = ''vec3'' then
        (case rest of
           None \<Rightarrow> None
         | Some r \<Rightarrow> (case sscanf_vec3 L r of (rc, v) \<Rightarrow>
             if rc = 0 then Some None else Some (Some (TYPE_VEC3, As_vec3 v))))
      else if token = ''bool'' then
        (case next_token of
           None \<Rightarrow> None
         | Some t \<Rightarrow> (case sscanf_d L t of (rc, tmp) \<Rightarrow>
             if rc = 0 then Some None
             else if tmp \<noteq> 0 \<and> tmp \<noteq> 1 then Some None
             else Some (Some (TYPE_BOOL, As_bool (tmp \<noteq> 0)))))
      else if token = ''float'' then
        (case next_token of
           None \<Rightarrow> None
         | Some t \<Rightarrow> (case sscanf_f L t of (rc, v) \<Rightarrow>
             if rc = 0 then Some None else Some (Some (TYPE_FLOAT, As_float v))))
      else if token = ''int'' then
        (case next_token of
           None \<Rightarrow> None
         | Some t \<Rightarrow> (case sscanf_d L t of (rc, v) \<Rightarrow>
             if rc = 0 then Some None else Some (Some (TYPE_INT, As_int v))))
      else Some None)"

text \<open>
  \<open>scene_parse_att\<close>: the attribute, or \<open>None\<close> for the result false, and the rest of
  the stream.
\<close>

definition scene_parse_att ::
  "libc \<Rightarrow> string list \<Rightarrow> bool \<Rightarrow> (attr option \<times> string list) option" where
  "scene_parse_att L stream anon =
     (case READ_LINE stream of
        None \<Rightarrow> Some (None, stream)
      | Some (line, stream') \<Rightarrow>
          (case pf_strtok_r line of
             None \<Rightarrow> None
           | Some (tok1, rest1) \<Rightarrow>
               (case (if anon then Some ([], tok1, rest1)
                      else (case rest1 of
                              None \<Rightarrow> None
                            | Some r \<Rightarrow>
                                (case pf_strtok_r r of
                                   None \<Rightarrow> None
                                 | Some (tok2, rest2) \<Rightarrow>
                                     Some (take (ATTR_KEY_SIZE - 1) tok1, tok2, rest2)))) of
                  None \<Rightarrow> None
                | Some (k, token, rest) \<Rightarrow>
                    (case scene_parse_val L token rest of
                       None \<Rightarrow> None
                     | Some None \<Rightarrow> Some (None, stream')
                     | Some (Some (ty, v)) \<Rightarrow>
                         Some (Some \<lparr>attr_key = k, attr_ty = ty, val = v\<rparr>, stream')))))"

text \<open>
  The inner loop of \<open>scene_load_entity\<close> over the constructor arguments, and its outer
  loop over the attributes. \<open>None\<close> in the first component is \<open>goto fail_parse\<close>.
\<close>

fun scene_parse_args ::
  "libc \<Rightarrow> nat \<Rightarrow> string list \<Rightarrow> attr list \<Rightarrow> (attr list option \<times> string list) option" where
  "scene_parse_args L 0 stream cargs = Some (Some cargs, stream)"
| "scene_parse_args L (Suc n) stream cargs =
     (case scene_parse_att L stream True of
        None \<Rightarrow> None
      | Some (None, stream') \<Rightarrow> Some (None, stream')
      | Some (Some const_arg, stream') \<Rightarrow> scene_parse_args L n stream' (cargs @ [const_arg]))"

fun scene_parse_atts ::
  "libc \<Rightarrow> nat \<Rightarrow> string list \<Rightarrow> (string \<times> attr) list \<Rightarrow> attr list
     \<Rightarrow> (((string \<times> attr) list \<times> attr list) option \<times> string list) option" where
  "scene_parse_atts L 0 stream tbl cargs = Some (Some (tbl, cargs), stream)"
| "scene_parse_atts L (Suc n) stream tbl cargs =
     (case scene_parse_att L stream False of
        None \<Rightarrow> None
      | Some (None, stream') \<Rightarrow> Some (None, stream')
      | Some (Some a, stream') \<Rightarrow>
          (case kh_put tbl (attr_key a) a of (ret, tbl') \<Rightarrow>
             if ret = -1 \<or> ret = 0 then None
             else if attr_key a = ''constructor_arguments'' then
               (case val a of
                  As_int i \<Rightarrow>
                    (case scene_parse_args L (if i \<ge> 0 then nat i else nat (2 ^ 64 + i))
                            stream' cargs of
                       None \<Rightarrow> None
                     | Some (None, stream'') \<Rightarrow> Some (None, stream'')
                     | Some (Some cargs', stream'') \<Rightarrow>
                         scene_parse_atts L n stream'' tbl' cargs')
                | _ \<Rightarrow> None)
             else scene_parse_atts L n stream' tbl' cargs))"

text \<open>
  The constructor of the script layer: \<open>mk\<close> builds the entity at an address from the
  path, the name, the attributes and the constructor arguments, or fails.
\<close>

type_synonym entity_ctor =
  "string \<Rightarrow> string \<Rightarrow> (string \<times> attr) list \<Rightarrow> attr list \<Rightarrow> (eptr \<times> entity) option"

definition S_Entity_ObjFromAtts ::
  "entity_ctor \<Rightarrow> string \<Rightarrow> string \<Rightarrow> (string \<times> attr) list \<Rightarrow> attr list \<Rightarrow> gamestate
     \<Rightarrow> (bool \<times> gamestate) option" where
  \<comment> \<open>Modelled from the spec: \<open>S_Entity_ObjFromAtts\<close> of the script bindings (absent)
      creates the entity from its attribute map and registers it into the World
      Registry.\<close>
  "S_Entity_ObjFromAtts mk path name tbl cargs s =
     (case mk path name tbl cargs of
        None \<Rightarrow> Some (False, s)
      | Some (p, ent) \<Rightarrow> G_AddEntity p (s\<lparr>heap := (heap s)(p \<mapsto> ent)\<rparr>))"

definition scene_load_entity ::
  "libc \<Rightarrow> entity_ctor \<Rightarrow> string list \<Rightarrow> gamestate
     \<Rightarrow> ((bool \<times> gamestate) \<times> string list) option" where
  "scene_load_entity L mk stream s =
     (case READ_LINE stream of
        None \<Rightarrow> Some ((False, s), stream)
      | Some (line, stream') \<Rightarrow>
          (case sscanf_entity L line of (rc, name, path, num_atts) \<Rightarrow>
             if rc = 0 then Some ((False, s), stream')
             else
               (case scene_parse_atts L num_atts stream' [] [] of
                  None \<Rightarrow> None
                | Some (None, stream'') \<Rightarrow> Some ((False, s), stream'')
                | Some (Some (tbl, cargs), stream'') \<Rightarrow>
                    (case S_Entity_ObjFromAtts mk path name tbl cargs s of
                       None \<Rightarrow> None
                     | Some (ok, s') \<Rightarrow> Some ((ok, s'), stream'')))))"

definition scene_load_faction ::
  "libc \<Rightarrow> string list \<Rightarrow> gamestate \<Rightarrow> ((bool \<times> gamestate) \<times> string list) option" where
  "scene_load_faction L stream s =
     (case READ_LINE stream of
        None \<Rightarrow> Some ((False, s), stream)
      | Some (line, stream') \<Rightarrow>
          (case sscanf_faction L line of (rc, name) \<Rightarrow>
             if rc = 0 then Some ((False, s), stream')
             else
               (case scene_parse_att L stream' False of
                  None \<Rightarrow> None
                | Some (None, stream'') \<Rightarrow> Some ((False, s), stream'')
                | Some (Some col, stream'') \<Rightarrow>
                    if attr_ty col \<noteq> TYPE_VEC3 then Some ((False, s), stream'')
                    else
                      (case val col of
                         As_vec3 v \<Rightarrow> Some ((True, snd (G_AddFaction name v s)), stream'')
                       | _ \<Rightarrow> None))))"

text \<open>
  The two loops of \<open>Scene_Load\<close>: \<open>n\<close> records, stopping at the first that fails.
\<close>

fun scene_load_factions ::
  "libc \<Rightarrow> nat \<Rightarrow> string list \<Rightarrow> gamestate \<Rightarrow> ((bool \<times> gamestate) \<times> string list) option" where
  "scene_load_factions L 0 stream s = Some ((True, s), stream)"
| "scene_load_factions L (Suc n) stream s =
     (case scene_load_faction L stream s of
        None \<Rightarrow> None
      | Some ((ok, s'), stream') \<Rightarrow>
          if \<not> ok then Some ((False, s'), stream') else scene_load_factions L n stream' s')"

fun scene_load_entities ::
  "libc \<Rightarrow> entity_ctor \<Rightarrow> nat \<Rightarrow> string list \<Rightarrow> gamestate
     \<Rightarrow> ((bool \<times> gamestate) \<times> string list) option" where
  "scene_load_entities L mk 0 stream s = Some ((True, s), stream)"
| "scene_load_entities L mk (Suc n) stream s =
     (case scene_load_entity L mk stream s of
        None \<Rightarrow> None
      | Some ((ok, s'), stream') \<Rightarrow>
          if \<not> ok then Some ((False, s'), stream') else scene_load_entities L mk n stream' s')"

text \<open>
  \<open>Scene_Load\<close>; \<open>file\<close> is what \<open>SDL_RWFromFile\<close> opens: the lines of the file, or
  \<open>None\<close> when it cannot be opened.
\<close>

definition Scene_Load ::
  "libc \<Rightarrow> entity_ctor \<Rightarrow> string list option \<Rightarrow> gamestate \<Rightarrow> (bool \<times> gamestate) option" where
  "Scene_Load L mk file s =
     (case file of
        None \<Rightarrow> Some (False, s)
      | Some stream \<Rightarrow>
          (case READ_LINE stream of
             None \<Rightarrow> Some (False, s)
           | Some (line, stream1) \<Rightarrow>
               (case sscanf_num_factions L line of (rc, nfactions) \<Rightarrow>
                  if rc = 0 then Some (False, s)
                  else
                    (case scene_load_factions L nfactions stream1 s of
                       None \<Rightarrow> None
                     | Some ((ok, s1), stream2) \<Rightarrow>
                         if \<not> ok then Some (False, s1)
                         else
                           (case READ_LINE stream2 of
                              None \<Rightarrow> Some (False, s1)
                            | Some (line2, stream3) \<Rightarrow>
                                (case sscanf_num_entities L line2 of (rc2, num_ents) \<Rightarrow>
                                   if rc2 = 0 then Some (False, s1)
                                   else
                                     (case scene_load_entities L mk num_ents stream3 s1 of
                                        None \<Rightarrow> None
                                      | Some ((ok2, s2), stream4) \<Rightarrow>
                                          Some (ok2, s2))))))))"

text \<open>
  What a load, failed or not, keeps of the registry it found: the factions with their
  diplomacy, and the active entities under their ids.
\<close>

definition registry_kept :: "gamestate \<Rightarrow> gamestate \<Rightarrow> bool" where
  "registry_kept s s' =
     (num_factions s \<le> num_factions s'
      \<and> (\<forall>i < num_factions s. factions s' i = factions s i)
      \<and> (\<forall>a < num_factions s. \<forall>b < num_factions s.
            diplomacy_table s' a b = diplomacy_table s a b)
      \<and> (\<forall>k p. kh_get (active_ents s) k = Some p \<longrightarrow> kh_get (active_ents s') k = Some p))"

text \<open>
  The records of a scene file and what loading them does to the registry, the one
  apart from the other, to say what a load has done when it fails.
  \<open>faction_record\<close> is the
  faction record at the head of a stream, when there is one that parses: its name and
  colour, and the stream behind it. \<open>faction_records\<close> are the records, at most \<open>n\<close>,
  that parse before the first that does not, and the stream behind them.
  \<open>add_faction\<close> is the call of \<open>G_AddFaction\<close> for a record.
\<close>

definition faction_record ::
  "libc \<Rightarrow> string list \<Rightarrow> ((string \<times> vec3_t) \<times> string list) option" where
  "faction_record L stream =
     (case stream of
        [] \<Rightarrow> None
      | line # stream' \<Rightarrow>
          (case sscanf_faction L line of (rc, name) \<Rightarrow>
             if rc = 0 then None
             else
               (case scene_parse_att L stream' False of
                  Some (Some col, stream'') \<Rightarrow>
                    (case val col of
                       As_vec3 v \<Rightarrow>
                         if attr_ty col = TYPE_VEC3 then Some ((name, v), stream'') else None
                     | _ \<Rightarrow> None)
                | _ \<Rightarrow> None)))"

fun faction_records ::
  "libc \<Rightarrow> nat \<Rightarrow> string list \<Rightarrow> (string \<times> vec3_t) list \<times> string list" where
  "faction_records L 0 stream = ([], stream)"
| "faction_records L (Suc n) stream =
     (case faction_record L stream of
        None \<Rightarrow> ([], stream)
      | Some (r, stream') \<Rightarrow>
          (case faction_records L n stream' of (rs, rest) \<Rightarrow> (r # rs, rest)))"

definition add_faction :: "string \<times> vec3_t \<Rightarrow> gamestate \<Rightarrow> gamestate" where
  "add_faction r s = snd (G_AddFaction (fst r) (snd r) s)"

text \<open>
  The same for entities: the entity record at the head of a stream, when there is one
  that parses, is the path, the name, the attributes and the constructor arguments;
  \<open>register_entities\<close> hands the records to \<open>S_Entity_ObjFromAtts\<close> one after the
  other and stops behind the first that it refuses.
\<close>

type_synonym entity_rec = "string \<times> string \<times> (string \<times> attr) list \<times> attr list"

definition entity_record :: "libc \<Rightarrow> string list \<Rightarrow> (entity_rec \<times> string list) option" where
  "entity_record L stream =
     (case stream of
        [] \<Rightarrow> None
      | line # stream' \<Rightarrow>
          (case sscanf_entity L line of (rc, name, path, num_atts) \<Rightarrow>
             if rc = 0 then None
             else
               (case scene_parse_atts L num_atts stream' [] [] of
                  Some (Some (tbl, cargs), stream'') \<Rightarrow> Some ((path, name, tbl, cargs), stream'')
                | _ \<Rightarrow> None)))"

fun entity_records :: "libc \<Rightarrow> nat \<Rightarrow> string list \<Rightarrow> entity_rec list" where
  "entity_records L 0 stream = []"
| "entity_records L (Suc n) stream =
     (case entity_record L stream of
        None \<Rightarrow> []
      | Some (r, stream') \<Rightarrow> r # entity_records L n stream')"

fun register_entities :: "entity_ctor \<Rightarrow> entity_rec list \<Rightarrow> gamestate \<Rightarrow> gamestate option" where
  "register_entities mk [] s = Some s"
| "register_entities mk ((path, name, tbl, cargs) # rs) s =
     (case S_Entity_ObjFromAtts mk path name tbl cargs s of
        None \<Rightarrow> None
      | Some (ok, s1) \<Rightarrow> if ok then register_entities mk rs s1 else Some s1)"

subsection \<open>A concrete scene file\<close>

text \<open>
  A file that announces one faction, gives it, and goes wrong at the line that should
  announce the entities; a file that gives two factions and goes wrong at its first
  entity record; a file that gives a faction and an entity, a tree that the
  constructor \<open>ex_tree_ctor\<close> builds at address 13, and goes wrong at its second
  entity record; and the conversions of the C library on their lines: \<open>sscanf\<close>
  returns the number of conversions, 0 when the text does not match, and \<open>EOF\<close>,
  which is \<open>-1\<close>, when the line ends before the first conversion.
\<close>

definition ex_scene_file :: "string list" where
  "ex_scene_file =
     [''num_factions 1'',
      ''faction '' @ [CHR 0x22] @ ''red'' @ [CHR 0x22],
      ''color vec3 1.0 0.0 0.0'',
      ''entities: 0'']"

definition ex_scene_file2 :: "string list" where
  "ex_scene_file2 =
     [''num_factions 2'',
      ''faction '' @ [CHR 0x22] @ ''red'' @ [CHR 0x22],
      ''color vec3 1.0 0.0 0.0'',
      ''faction '' @ [CHR 0x22] @ ''blue'' @ [CHR 0x22],
      ''color vec3 0.0 0.0 1.0'',
      ''num_entities 1'',
      ''entities'']"

definition ex_libc :: libc where
  "ex_libc = \<lparr>
     sscanf_num_factions = (\<lambda>l. if l = ''num_factions 1'' then (1, 1)
                                else if l = ''num_factions 2'' then (1, 2)
                                else if l = ''num_factions'' then (-1, 0) else (0, 0)),
     sscanf_faction = (\<lambda>l. if l = ''faction '' @ [CHR 0x22] @ ''red'' @ [CHR 0x22]
                            then (1, ''red'')
                            else if l = ''faction '' @ [CHR 0x22] @ ''blue'' @ [CHR 0x22]
                            then (1, ''blue'') else (0, [])),
     sscanf_num_entities = (\<lambda>l. if l = ''num_entities 0'' then (1, 0)
                                else if l = ''num_entities 1'' then (1, 1)
                                else if l = ''num_entities 2'' then (1, 2)
                                else if l = ''num_entities'' then (-1, 0) else (0, 0)),
     sscanf_entity = (\<lambda>l. if l = ''entity tree models/tree 0''
                           then (3, ''tree'', ''models/tree'', 0) else (0, [], [], 0)),
     sscanf_string = (\<lambda>l. (0, [])),
     sscanf_quat = (\<lambda>l. (0, (0, 0, 0, 0))),
     sscanf_vec3 = (\<lambda>l. if l = ''1.0 0.0 0.0'' then (3, (1, 0, 0))
                          else if l = ''0.0 0.0 1.0'' then (3, (0, 0, 1)) else (0, (0, 0, 0))),
     sscanf_d = (\<lambda>l. (0, 0)),
     sscanf_f = (\<lambda>l. (0, 0))\<rparr>"

definition ex_ctor :: entity_ctor where
  "ex_ctor path name tbl cargs = None"

definition ex_scene_file3 :: "string list" where
  "ex_scene_file3 =
     [''num_factions 1'',
      ''faction '' @ [CHR 0x22] @ ''red'' @ [CHR 0x22],
      ''color vec3 1.0 0.0 0.0'',
      ''num_entities 2'',
      ''entity tree models/tree 0'',
      ''entities'']"

definition ex_tree_ctor :: entity_ctor where
  "ex_tree_ctor path name tbl cargs =
     (if name = ''tree'' then Some (13, ex_static_ent\<lparr>uid := 9\<rparr>) else None)"

section \<open>Properties of the animation sampler\<close>

lemma real_unat_nonneg: "(0::real) \<le> unsigned (w :: 32 word)"
  by (metis of_nat_0_le_iff of_nat_unat)

lemma A_Update_not_elapsed:
  "\<not> frame_elapsed curr_ticks (anim_ctx ent) \<Longrightarrow> A_Update curr_ticks ticks' ent q = Some (ent, q)"
  by (simp add: A_Update_def)

text \<open>
  C5. When the elapsed time since the current frame started is less than the frame
  period \<open>1/key_fps\<close>, \<open>A_Update\<close> returns and leaves the whole entity, with its
  animation context and \<open>curr_frame\<close>, and the event queue unchanged; so too when no
  time has elapsed at all, so that repeating the update changes nothing.
\<close>

theorem A_Update_below_period_unchanged:
  assumes "secs_less (elapsed_secs curr_ticks (curr_frame_start_ticks (anim_ctx ent)))
             (frame_period_secs (key_fps (anim_ctx ent)))
           \<or> curr_ticks = curr_frame_start_ticks (anim_ctx ent)"
  shows "A_Update curr_ticks ticks' ent q = Some (ent, q)"
proof -
  have "\<not> frame_elapsed curr_ticks (anim_ctx ent)"
    using assms
    by (cases "key_fps (anim_ctx ent) = 0")
       (auto simp: frame_elapsed_def secs_less_def secs_greater_def elapsed_secs_def
          frame_period_secs_def not_less real_unat_nonneg)
  then show ?thesis
    by (rule A_Update_not_elapsed)
qed

theorem A_Update_below_period_unchanged_witness:
  "secs_less (elapsed_secs 1400 (curr_frame_start_ticks (anim_ctx (ex_ent ANIM_MODE_LOOP 0))))
             (frame_period_secs (key_fps (anim_ctx (ex_ent ANIM_MODE_LOOP 0))))
   \<and> A_Update 1400 1400 (ex_ent ANIM_MODE_LOOP 0) [] = Some (ex_ent ANIM_MODE_LOOP 0, [])"
proof -
  have h: "secs_less (elapsed_secs 1400 (curr_frame_start_ticks (anim_ctx (ex_ent ANIM_MODE_LOOP 0))))
             (frame_period_secs (key_fps (anim_ctx (ex_ent ANIM_MODE_LOOP 0))))"
    by (simp add: ex_ent_def secs_less_def elapsed_secs_def frame_period_secs_def)
  from A_Update_below_period_unchanged [OF disjI1 [OF h]] h show ?thesis by simp
qed


subsection \<open>Frame advance\<close>

lemma clip_index_bounds: "clip_index cs name i = Some k \<Longrightarrow> i \<le> k \<and> k < i + length cs \<and> clip_name (cs ! (k - i)) = name"
proof (induction cs arbitrary: i)
  case Nil
  then show ?case by simp
next
  case (Cons c cs)
  show ?case
  proof (cases "clip_name c = name")
    case True
    with Cons.prems show ?thesis by simp
  next
    case False
    with Cons.prems have r: "clip_index cs name (Suc i) = Some k" by simp
    from Cons.IH [OF r] show ?thesis by (auto simp: Suc_diff_le)
  qed
qed

lemma A_SetActiveClip_keeps:
  "A_SetActiveClip t ent name md fps = Some ent' \<Longrightarrow>
     anim_private ent' = anim_private ent \<and> idle (anim_ctx ent') = idle (anim_ctx ent)
     \<and> flags ent' = flags ent \<and> uid ent' = uid ent"
  by (auto simp: A_SetActiveClip_def split: option.splits)

lemma A_InitCtx_idle_ok:
  assumes "A_InitCtx t ent name fps = Some ent'"
  shows "idle_clip_ok ent'"
proof -
  from assms obtain i where i: "a_clip_for_name ent name = Some i"
    by (auto simp: A_InitCtx_def split: option.splits)
  let ?e = "ent\<lparr>anim_ctx := (anim_ctx ent)\<lparr>idle := i\<rparr>\<rparr>"
  from assms i have s: "A_SetActiveClip t ?e name ANIM_MODE_LOOP fps = Some ent'"
    by (simp add: A_InitCtx_def)
  from A_SetActiveClip_keeps [OF s]
  have k: "anim_private ent' = anim_private ent" "idle (anim_ctx ent') = i" by simp_all
  from i have "clip_index (anims (anim_private ent)) name 0 = Some i"
    by (simp add: a_clip_for_name_def)
  from clip_index_bounds [OF this]
  have "i < length (anims (anim_private ent))" "clip_name (anims (anim_private ent) ! i) = name"
    by simp_all
  with i k show ?thesis by (simp add: idle_clip_ok_def a_clip_for_name_def)
qed


text \<open>
  C4. Let the active clip have \<open>N > 0\<close> frames and let the elapsed time exceed the
  frame period \<open>1/key_fps\<close>. Then \<open>A_Update\<close> returns, with \<open>curr_frame\<close> advanced by
  one modulo \<open>N\<close> and the frame-start timestamp reset. When the frame does not wrap
  nothing else changes and nothing is queued. When it wraps to 0, exactly one
  \<open>EVENT_ANIM_CYCLE_FINISHED\<close> for the entity is queued; in loop mode nothing else
  happens; in the modes once and once-then-hide one \<open>EVENT_ANIM_FINISHED\<close> follows
  it, the active clip becomes the idle clip in loop mode (at frame 0, with the
  timestamp of the later clock reading), and the invisible flag is set in the
  once-then-hide mode only.
\<close>

theorem A_Update_frame_advance:
  assumes el: "secs_greater (elapsed_secs curr_ticks (curr_frame_start_ticks (anim_ctx ent)))
                 (frame_period_secs (key_fps (anim_ctx ent)))"
    and act: "active (anim_ctx ent) < length (anims (anim_private ent))"
    and N: "num_frames (anims (anim_private ent) ! active (anim_ctx ent)) = N" "0 < N"
    and idl: "idle_clip_ok ent"
  shows "\<exists>ent' q'. A_Update curr_ticks ticks' ent q = Some (ent', q')
     \<and> curr_frame (anim_ctx ent') = (curr_frame (anim_ctx ent) + 1) mod N
     \<and> (if (curr_frame (anim_ctx ent) + 1) mod N = 0 then
          (if mode (anim_ctx ent) = ANIM_MODE_LOOP then
             q' = q @ [anim_event EVENT_ANIM_CYCLE_FINISHED ent]
             \<and> ent' = ent\<lparr>anim_ctx := (anim_ctx ent)\<lparr>curr_frame := 0,
                                    curr_frame_start_ticks := curr_ticks\<rparr>\<rparr>
           else
             q' = q @ [anim_event EVENT_ANIM_CYCLE_FINISHED ent,
                       anim_event EVENT_ANIM_FINISHED ent]
             \<and> ent' = ent\<lparr>anim_ctx := (anim_ctx ent)\<lparr>active := idle (anim_ctx ent),
                                    mode := ANIM_MODE_LOOP, curr_frame := 0,
                                    curr_frame_start_ticks := ticks'\<rparr>,
                           flags := (if mode (anim_ctx ent) = ANIM_MODE_ONCE_HIDE_ON_FINISH
                                     then flags ent OR ENTITY_FLAG_INVISIBLE else flags ent)\<rparr>)
        else
          q' = q \<and> ent' = ent\<lparr>anim_ctx := (anim_ctx ent)\<lparr>
                                  curr_frame := (curr_frame (anim_ctx ent) + 1) mod N,
                                  curr_frame_start_ticks := curr_ticks\<rparr>\<rparr>)"
proof -
  have fe: "frame_elapsed curr_ticks (anim_ctx ent)"
    using el by (simp add: frame_elapsed_def)
  from idl have i1: "idle (anim_ctx ent) < length (anims (anim_private ent))"
    and i2: "a_clip_for_name ent (clip_name (anims (anim_private ent) ! idle (anim_ctx ent)))
              = Some (idle (anim_ctx ent))"
    by (simp_all add: idle_clip_ok_def)
  show ?thesis
  proof (cases "(curr_frame (anim_ctx ent) + 1) mod N = 0")
    case False
    then show ?thesis using fe act N
      by (simp add: A_Update_def Let_def)
  next
    case True
    show ?thesis
    proof (cases "mode (anim_ctx ent)")
      case ANIM_MODE_LOOP
      then show ?thesis using fe act N True
        by (simp add: A_Update_def Let_def E_Entity_Notify_def queue_event_push_def anim_event_def)
    next
      case ANIM_MODE_ONCE
      then show ?thesis using fe act N True i1 i2
        by (simp add: A_Update_def Let_def E_Entity_Notify_def queue_event_push_def anim_event_def
              A_SetActiveClip_def a_clip_for_name_def)
    next
      case ANIM_MODE_ONCE_HIDE_ON_FINISH
      then show ?thesis using fe act N True i1 i2
        by (simp add: A_Update_def Let_def E_Entity_Notify_def queue_event_push_def anim_event_def
              A_SetActiveClip_def a_clip_for_name_def)
    qed
  qed
qed


subsection \<open>Pose matrices\<close>







lemma sqt_walk_returns:
  "reaches_root js n j \<Longrightarrow> length js \<le> length sqts \<Longrightarrow> \<exists>r. sqt_walk P n js sqts j m = Walk_Done r"
proof (induction n arbitrary: j m)
  case 0
  then show ?case by simp
next
  case (Suc n)
  show ?case
  proof (cases "j \<ge> 0")
    case False
    then show ?thesis by simp
  next
    case True
    with Suc.prems have ok: "nat j < length js" and rr: "reaches_root js n (parent_idx (js ! nat j))"
      by auto
    from Suc.IH [OF rr Suc.prems(2)]
    obtain r where "sqt_walk P n js sqts (parent_idx (js ! nat j))
            (PFM_Mat4x4_Mult4x4 P (a_mat_from_sqt P (sqts ! nat j)) m) = Walk_Done r"
      by blast
    with True ok Suc.prems(2) show ?thesis by (simp add: Let_def)
  qed
qed



lemma reaches_root_mono: "reaches_root js n j \<Longrightarrow> n \<le> m \<Longrightarrow> reaches_root js m j"
proof (induction n arbitrary: m j)
  case 0
  then show ?case by (cases m) simp_all
next
  case (Suc n)
  from Suc.prems(2) obtain m' where m: "m = Suc m'" "n \<le> m'" by (cases m) simp_all
  with Suc.prems(1) Suc.IH show ?case by auto
qed

lemma reaches_root_chain_length:
  "reaches_root js n j \<Longrightarrow> \<exists>m \<le> n. chain_length js m j"
proof (induction n arbitrary: j)
  case 0
  then have "chain_length js 0 j" by simp
  then show ?case by blast
next
  case (Suc n)
  show ?case
  proof (cases "j < 0")
    case True
    then have "chain_length js 0 j" by simp
    then show ?thesis by blast
  next
    case False
    with Suc.prems have b: "nat j < length js"
      and r: "reaches_root js n (parent_idx (js ! nat j))" by auto
    from Suc.IH [OF r] obtain m where "m \<le> n" "chain_length js m (parent_idx (js ! nat j))"
      by blast
    with False b have "Suc m \<le> Suc n \<and> chain_length js (Suc m) j" by simp
    then show ?thesis by blast
  qed
qed

lemma chain_length_reaches: "chain_length js m j \<Longrightarrow> reaches_root js m j"
  by (induction m arbitrary: j) auto

lemma chain_length_unique: "chain_length js m j \<Longrightarrow> chain_length js m' j \<Longrightarrow> m = m'"
proof (induction m arbitrary: m' j)
  case 0
  then show ?case by (cases m') simp_all
next
  case (Suc m)
  from Suc.prems obtain k where k: "m' = Suc k" by (cases m') auto
  with Suc.prems Suc.IH [of "parent_idx (js ! nat j)" k] show ?case by simp
qed

lemma chain_length_levels:
  "chain_length js m j \<Longrightarrow> 1 \<le> k \<Longrightarrow> k \<le> m \<Longrightarrow> \<exists>i < length js. chain_length js k (int i)"
proof (induction m arbitrary: j)
  case 0
  then show ?case by simp
next
  case (Suc m)
  show ?case
  proof (cases "k = Suc m")
    case True
    from Suc.prems(1) have p: "0 \<le> j" and b: "nat j < length js" by simp_all
    from p have "int (nat j) = j" by simp
    with Suc.prems(1) True have "chain_length js k (int (nat j))" by (simp only:)
    with b have "nat j < length js \<and> chain_length js k (int (nat j))" by (rule conjI)
    then show ?thesis by blast
  next
    case False
    with Suc.prems have "k \<le> m" and c: "chain_length js m (parent_idx (js ! nat j))" by simp_all
    from Suc.IH [OF c Suc.prems(2) this(1)] show ?thesis .
  qed
qed

lemma chain_length_bound:
  assumes c: "chain_length js m j"
  shows "m \<le> length js"
proof -
  have "\<forall>k \<in> {1..m}. \<exists>i. i < length js \<and> chain_length js k (int i)"
    using chain_length_levels [OF c] by auto
  then obtain g where g: "\<forall>k \<in> {1..m}. g k < length js \<and> chain_length js k (int (g k))"
    by metis
  have "inj_on g {1..m}"
  proof (rule inj_onI)
    fix x y
    assume x: "x \<in> {1..m}" and y: "y \<in> {1..m}" and e: "g x = g y"
    from g x have cx: "chain_length js x (int (g x))" by blast
    from g y have "chain_length js y (int (g y))" by blast
    with e have cy: "chain_length js y (int (g x))" by (simp only:)
    from cx cy show "x = y" by (rule chain_length_unique)
  qed
  moreover have "g ` {1..m} \<subseteq> {..<length js}" using g by auto
  ultimately have "card {1..m} \<le> card {..<length js}"
    by (meson card_inj_on_le finite_lessThan)
  then show ?thesis by simp
qed

lemma reaches_root_within_length:
  assumes "reaches_root js n j"
  shows "reaches_root js (length js) j"
proof -
  from reaches_root_chain_length [OF assms] obtain m where m: "chain_length js m j" by blast
  from chain_length_bound [OF m] chain_length_reaches [OF m]
  show ?thesis by (rule reaches_root_mono [rotated])
qed

text \<open>
  C9. In a skeleton in which the parent chain of every joint reaches a negative index
  at all, and whose bind pose and current sample hold an SQT per joint, the chain of
  every joint reaches it within \<open>num_joints\<close> steps, and the walks of
  \<open>a_make_bind_mat\<close> and \<open>a_make_pose_mat\<close> return for every joint with fuel
  \<open>num_joints\<close>: neither runs more than \<open>num_joints\<close> iterations.
\<close>

theorem joint_walks_terminate:
  assumes ok: "pose_sample_ok ent sk"
    and bl: "length (bind_sqts sk) = num_joints sk"
    and acyclic: "\<forall>i < num_joints sk. \<exists>n. reaches_root (joints sk) n (int i)"
    and j: "j < num_joints sk"
  shows "reaches_root (joints sk) (num_joints sk) (int j)
       \<and> (\<exists>m. a_make_bind_mat P (num_joints sk) (int j) sk = Walk_Done m)
       \<and> (\<exists>m. a_make_pose_mat P (num_joints sk) ent (int j) sk = Walk_Done m)"
proof -
  from acyclic j obtain n where "reaches_root (joints sk) n (int j)" by blast
  then have rr: "reaches_root (joints sk) (num_joints sk) (int j)"
    unfolding num_joints_def by (rule reaches_root_within_length)
  from ok have len: "length (local_joint_poses (curr_sample ent)) = length (joints sk)"
    and pm: "\<And>k i. a_make_pose_mat P k ent i sk
               = sqt_walk P k (joints sk) (local_joint_poses (curr_sample ent)) i (PFM_Mat4x4_Identity P)"
    by (simp_all add: pose_sample_ok_def a_make_pose_mat_def curr_sample_def Let_def)
  have "\<exists>m. sqt_walk P (num_joints sk) (joints sk) (bind_sqts sk) (int j) (PFM_Mat4x4_Identity P) = Walk_Done m"
    using bl by (intro sqt_walk_returns [OF rr]) (simp add: num_joints_def)
  moreover
  have "\<exists>m. sqt_walk P (num_joints sk) (joints sk) (local_joint_poses (curr_sample ent)) (int j)
               (PFM_Mat4x4_Identity P) = Walk_Done m"
    using len by (intro sqt_walk_returns [OF rr]) simp
  ultimately show ?thesis using rr by (simp add: a_make_bind_mat_def pm)
qed






theorem A_Update_frame_advance_witness:
  "secs_greater (elapsed_secs 1600 (curr_frame_start_ticks (anim_ctx (ex_ent ANIM_MODE_ONCE_HIDE_ON_FINISH 1))))
      (frame_period_secs (key_fps (anim_ctx (ex_ent ANIM_MODE_ONCE_HIDE_ON_FINISH 1))))
   \<and> idle_clip_ok (ex_ent ANIM_MODE_ONCE_HIDE_ON_FINISH 1)
   \<and> (\<exists>ent' q'. A_Update 1600 1601 (ex_ent ANIM_MODE_ONCE_HIDE_ON_FINISH 1) [] = Some (ent', q')
         \<and> curr_frame (anim_ctx ent') = 0
         \<and> q' = [anim_event EVENT_ANIM_CYCLE_FINISHED (ex_ent ANIM_MODE_ONCE_HIDE_ON_FINISH 1),
                  anim_event EVENT_ANIM_FINISHED (ex_ent ANIM_MODE_ONCE_HIDE_ON_FINISH 1)]
         \<and> active (anim_ctx ent') = 0 \<and> mode (anim_ctx ent') = ANIM_MODE_LOOP
         \<and> curr_frame_start_ticks (anim_ctx ent') = 1601
         \<and> flag_set (flags ent') ENTITY_FLAG_INVISIBLE)"
proof -
  define e where "e = ex_ent ANIM_MODE_ONCE_HIDE_ON_FINISH 1"
  have el: "secs_greater (elapsed_secs 1600 (curr_frame_start_ticks (anim_ctx e)))
              (frame_period_secs (key_fps (anim_ctx e)))"
    by (simp add: e_def ex_ent_def secs_greater_def elapsed_secs_def frame_period_secs_def)
  have act: "active (anim_ctx e) < length (anims (anim_private e))"
    by (simp add: e_def ex_ent_def)
  have N: "num_frames (anims (anim_private e) ! active (anim_ctx e)) = 2"
    by (simp add: e_def ex_ent_def ex_clip_def)
  have idl: "idle_clip_ok e"
    by (simp add: e_def idle_clip_ok_def ex_ent_def ex_clip_def a_clip_for_name_def)
  have fl: "flag_set (flags e OR ENTITY_FLAG_INVISIBLE) ENTITY_FLAG_INVISIBLE"
    by (simp add: e_def flag_set_def ex_ent_def ENTITY_FLAG_INVISIBLE_def
          ENTITY_FLAG_ANIMATED_def ENTITY_FLAG_COLLISION_def)
  have cf: "curr_frame (anim_ctx e) = 1" "mode (anim_ctx e) = ANIM_MODE_ONCE_HIDE_ON_FINISH"
      "idle (anim_ctx e) = 0"
    by (simp_all add: e_def ex_ent_def)
  from A_Update_frame_advance [OF el act N _ idl, of 1601 "[]"]
  obtain ent' q' where r: "A_Update 1600 1601 e [] = Some (ent', q')"
      "q' = [anim_event EVENT_ANIM_CYCLE_FINISHED e, anim_event EVENT_ANIM_FINISHED e]"
      "ent' = e\<lparr>anim_ctx := (anim_ctx e)\<lparr>active := 0,
                                    mode := ANIM_MODE_LOOP, curr_frame := 0,
                                    curr_frame_start_ticks := 1601\<rparr>,
                           flags := flags e OR ENTITY_FLAG_INVISIBLE\<rparr>"
    by (auto simp: cf)
  from r fl have "A_Update 1600 1601 e [] = Some (ent', q')
         \<and> curr_frame (anim_ctx ent') = 0
         \<and> q' = [anim_event EVENT_ANIM_CYCLE_FINISHED e, anim_event EVENT_ANIM_FINISHED e]
         \<and> active (anim_ctx ent') = 0 \<and> mode (anim_ctx ent') = ANIM_MODE_LOOP
         \<and> curr_frame_start_ticks (anim_ctx ent') = 1601
         \<and> flag_set (flags ent') ENTITY_FLAG_INVISIBLE"
    by simp
  with el idl show ?thesis unfolding e_def by blast
qed


theorem joint_walks_terminate_witness:
  "pose_sample_ok (ex_ent ANIM_MODE_LOOP 0) ex_skel
   \<and> length (bind_sqts ex_skel) = num_joints ex_skel
   \<and> reaches_root (joints ex_skel) 1 0
   \<and> reaches_root (joints ex_skel) 2 1
   \<and> reaches_root (joints ex_skel) 3 2
   \<and> num_joints ex_skel = 3
   \<and> (\<exists>m. a_make_bind_mat ex_pfm (num_joints ex_skel) 2 ex_skel = Walk_Done m)
   \<and> (\<exists>m. a_make_pose_mat ex_pfm (num_joints ex_skel) (ex_ent ANIM_MODE_LOOP 0) 2 ex_skel
              = Walk_Done m)"
proof -
  let ?e = "ex_ent ANIM_MODE_LOOP 0"
  have ok: "pose_sample_ok ?e ex_skel"
    by (simp add: pose_sample_ok_def ex_ent_def ex_clip_def ex_skel_def)
  have n: "num_joints ex_skel = 3"
    by (simp add: num_joints_def ex_skel_def)
  have bl: "length (bind_sqts ex_skel) = num_joints ex_skel"
    by (simp add: num_joints_def ex_skel_def)
  have r0: "reaches_root (joints ex_skel) 1 0"
    and r1: "reaches_root (joints ex_skel) 2 1"
    and r2: "reaches_root (joints ex_skel) 3 2"
    by (simp_all add: ex_skel_def numeral_3_eq_3 numeral_2_eq_2)
  have ac: "\<forall>i < num_joints ex_skel. \<exists>k. reaches_root (joints ex_skel) k (int i)"
  proof (intro allI impI)
    fix i assume "i < num_joints ex_skel"
    then have "i = 0 \<or> i = 1 \<or> i = 2" by (auto simp: n)
    moreover from r0 have "\<exists>k. reaches_root (joints ex_skel) k (int 0)"
      by (intro exI [of _ 1]) (simp only: int_ops)
    moreover from r1 have "\<exists>k. reaches_root (joints ex_skel) k (int 1)"
      by (intro exI [of _ 2]) (simp only: int_ops)
    moreover from r2 have "\<exists>k. reaches_root (joints ex_skel) k (int 2)"
      by (intro exI [of _ 3]) (simp only: int_ops)
    ultimately show "\<exists>k. reaches_root (joints ex_skel) k (int i)" by blast
  qed
  have j: "2 < num_joints ex_skel" by (simp add: n)
  from joint_walks_terminate [OF ok bl ac j, of ex_pfm] ok bl r0 r1 r2 n
  show ?thesis by simp
qed

subsection \<open>Pose matrices in single precision\<close>
















section \<open>Properties of the event bus\<close>

lemma e_key_low: "ucast (e_key a x) = x"
  unfolding e_key_def
  by (rule bit_word_eqI) (auto simp: bit_simps)

lemma e_key_high: "ucast (drop_bit 32 (e_key a x)) = a"
  unfolding e_key_def
  by (rule bit_word_eqI) (auto simp: bit_simps dest: bit_imp_le_length)

lemma e_key_inj: "e_key a x = e_key b y \<longleftrightarrow> a = b \<and> x = y"
  by (metis e_key_low e_key_high)

lemma e_handle_vec_fold:
  "e_handle_vec run event ss0 key vec0 vec st = Some st' \<Longrightarrow>
     st' = fold (\<lambda>h. run h event) (filter (\<lambda>h. simmask h AND ss0 \<noteq> 0) vec) st"
proof (induction vec arbitrary: st)
  case Nil
  then show ?case by simp
next
  case (Cons elem vec)
  show ?case
  proof (cases "simmask elem AND ss0 = 0")
    case True
    with Cons.prems have "e_handle_vec run event ss0 key vec0 vec st = Some st'"
      by (simp split: if_splits)
    from Cons.IH [OF this] True show ?thesis by simp
  next
    case False
    with Cons.prems have "e_handle_vec run event ss0 key vec0 vec (run elem event st) = Some st'"
      by (simp split: if_splits)
    from Cons.IH [OF this] False show ?thesis by simp
  qed
qed

lemma e_handle_event_dispatch:
  assumes "e_handle_event run event st = Some st'"
  shows "st' = dispatch run event st"
proof (cases "s_event_handler_table st (e_key (receiver_id event) (ev_type event))")
  case None
  with assms show ?thesis by (simp add: e_handle_event_def dispatch_def handlers_for_def)
next
  case (Some vec)
  with assms have "e_handle_vec run event (sim_state st)
      (e_key (receiver_id event) (ev_type event)) vec vec st = Some st'"
    by (simp add: e_handle_event_def)
  from e_handle_vec_fold [OF this] Some show ?thesis
    by (simp add: dispatch_def handlers_for_def)
qed

lemma e_handle_vec_returns:
  assumes kv: "keeps_vector run"
    and key: "key = e_key (receiver_id event) (ev_type event)"
  shows "s_event_handler_table st key = Some vec0 \<Longrightarrow>
     e_handle_vec run event ss0 key vec0 vec st
       = Some (fold (\<lambda>h. run h event) (filter (\<lambda>h. simmask h AND ss0 \<noteq> 0) vec) st)"
proof (induction vec arbitrary: st)
  case Nil
  show ?case by simp
next
  case (Cons elem vec)
  from kv key Cons.prems have "s_event_handler_table (run elem event st) key = Some vec0"
    by (simp add: keeps_vector_def)
  from Cons.IH [OF this] Cons.IH [OF Cons.prems] Cons.prems show ?case by simp
qed

lemma e_handle_event_returns:
  assumes kv: "keeps_vector run"
  shows "e_handle_event run event st = Some (dispatch run event st)"
proof (cases "s_event_handler_table st (e_key (receiver_id event) (ev_type event))")
  case None
  then show ?thesis by (simp add: e_handle_event_def dispatch_def handlers_for_def)
next
  case (Some vec)
  from e_handle_vec_returns [OF kv refl Some, of "sim_state st" vec] Some
  show ?thesis by (simp add: e_handle_event_def dispatch_def handlers_for_def)
qed

lemma fold_run_appends:
  assumes "appends_only run"
  shows "\<exists>ps. s_event_queue (fold (\<lambda>h. run h e) hs st) = s_event_queue st @ ps"
proof (induction hs arbitrary: st)
  case Nil
  show ?case by simp
next
  case (Cons h hs)
  from assms obtain ps1 where a: "s_event_queue (run h e st) = s_event_queue st @ ps1"
    unfolding appends_only_def by blast
  from Cons.IH [of "run h e st"] obtain ps2 where
    "s_event_queue (fold (\<lambda>h. run h e) hs (run h e st)) = s_event_queue (run h e st) @ ps2"
    by blast
  with a have "s_event_queue (fold (\<lambda>h. run h e) (h # hs) st) = s_event_queue st @ (ps1 @ ps2)"
    by simp
  then show ?case by (rule exI)
qed

lemma dispatch_appends:
  "appends_only run \<Longrightarrow> \<exists>ps. s_event_queue (dispatch run e st) = s_event_queue st @ ps"
  unfolding dispatch_def by (rule fold_run_appends)

lemma fold_run_queue_untouched:
  assumes "queue_untouched run"
  shows "s_event_queue (fold (\<lambda>h. run h e) hs st) = s_event_queue st"
  using assms by (induction hs arbitrary: st) (simp_all add: queue_untouched_def)

lemma dispatch_queue_untouched:
  "queue_untouched run \<Longrightarrow> s_event_queue (dispatch run e st) = s_event_queue st"
  unfolding dispatch_def by (rule fold_run_queue_untouched)

lemma service_loop_fifo:
  "service_loop run fuel st = Some st' \<Longrightarrow>
     \<exists>es. length es \<le> fuel \<and> serviced_fifo run es st \<and> st' = drain run es st"
proof (induction fuel arbitrary: st)
  case 0
  then have "s_event_queue st = []" "st' = st"
    by (auto simp: queue_event_pop_def split: list.splits)
  then have "length [] \<le> (0::nat) \<and> serviced_fifo run [] st \<and> st' = drain run [] st"
    by simp
  then show ?case by (rule exI)
next
  case (Suc fuel)
  show ?case
  proof (cases "s_event_queue st")
    case Nil
    with Suc.prems have "st' = st" by (simp add: queue_event_pop_def)
    with Nil have "length [] \<le> Suc fuel \<and> serviced_fifo run [] st \<and> st' = drain run [] st"
      by simp
    then show ?thesis by (rule exI)
  next
    case (Cons e q)
    with Suc.prems obtain st1 where
      h: "e_handle_event run e (st\<lparr>s_event_queue := q\<rparr>) = Some st1"
      and l: "service_loop run fuel st1 = Some st'"
      by (auto simp: queue_event_pop_def split: option.splits)
    from e_handle_event_dispatch [OF h] have d: "st1 = dispatch run e (st\<lparr>s_event_queue := q\<rparr>)" .
    from Suc.IH [OF l] obtain es where
      es: "length es \<le> fuel" "serviced_fifo run es st1" "st' = drain run es st1"
      by (elim exE conjE)
    with Cons d have "length (e # es) \<le> Suc fuel \<and> serviced_fifo run (e # es) st
        \<and> st' = drain run (e # es) st"
      by simp
    then show ?thesis by (rule exI)
  qed
qed

lemma service_loop_returns:
  assumes kv: "keeps_vector run"
  shows "serviced_fifo run es st \<Longrightarrow> length es \<le> fuel \<Longrightarrow>
     service_loop run fuel st = Some (drain run es st)"
proof (induction es arbitrary: st fuel)
  case Nil
  then show ?case by (cases fuel) (simp_all add: queue_event_pop_def)
next
  case (Cons e es)
  from Cons.prems(1) obtain q where q: "s_event_queue st = e # q"
    by (cases "s_event_queue st") auto
  from Cons.prems(2) obtain fuel' where f: "fuel = Suc fuel'" "length es \<le> fuel'"
    by (cases fuel) auto
  let ?st1 = "dispatch run e (st\<lparr>s_event_queue := q\<rparr>)"
  from Cons.prems(1) q have "serviced_fifo run es ?st1" by simp
  from Cons.IH [OF this f(2)] have "service_loop run fuel' ?st1 = Some (drain run es ?st1)" .
  with q f e_handle_event_returns [OF kv, of e "st\<lparr>s_event_queue := q\<rparr>"]
  show ?case by (simp add: queue_event_pop_def)
qed

lemma serviced_fifo_empty: "serviced_fifo run es st \<Longrightarrow> s_event_queue (drain run es st) = []"
  by (induction es arbitrary: st) auto

lemma serviced_fifo_appends:
  assumes ap: "appends_only run"
  shows "serviced_fifo run es st \<Longrightarrow> \<exists>ps. es = s_event_queue st @ ps"
proof (induction es arbitrary: st)
  case Nil
  then show ?case by simp
next
  case (Cons e es)
  from Cons.prems obtain q where q: "s_event_queue st = e # q"
    by (cases "s_event_queue st") auto
  let ?st1 = "dispatch run e (st\<lparr>s_event_queue := q\<rparr>)"
  from Cons.prems q have "serviced_fifo run es ?st1" by simp
  from Cons.IH [OF this] obtain ps2 where a: "es = s_event_queue ?st1 @ ps2" by blast
  from dispatch_appends [OF ap, of e "st\<lparr>s_event_queue := q\<rparr>"] obtain ps1 where
    "s_event_queue ?st1 = q @ ps1" by auto
  with a q have "e # es = s_event_queue st @ (ps1 @ ps2)" by simp
  then show ?case by (rule exI)
qed

lemma serviced_fifo_queue_untouched:
  assumes qu: "queue_untouched run"
  shows "s_event_queue st = es \<Longrightarrow> serviced_fifo run es st"
proof (induction es arbitrary: st)
  case Nil
  then show ?case by simp
next
  case (Cons e es)
  let ?st1 = "dispatch run e (st\<lparr>s_event_queue := es\<rparr>)"
  from dispatch_queue_untouched [OF qu, of e "st\<lparr>s_event_queue := es\<rparr>"]
  have "s_event_queue ?st1 = es" by simp
  from Cons.IH [OF this] Cons.prems show ?case by simp
qed

lemma e_register_handler_appends:
  "s_event_handler_table (snd (e_register_handler key desc st)) key
     = Some ((case s_event_handler_table st key of None \<Rightarrow> [] | Some vec \<Rightarrow> vec) @ [desc])"
  by (simp add: e_register_handler_def split: option.splits)

lemma E_ServiceQueue_returns:
  assumes kv: "keeps_vector run"
    and sf: "serviced_fifo run es (dispatch run (global_event EVENT_UPDATE_START) st)"
    and len: "length es \<le> fuel"
  shows "E_ServiceQueue run fuel st =
     Some (dispatch run (global_event EVENT_UPDATE_END)
            (dispatch run (global_event EVENT_UPDATE_UI)
               (drain run es (dispatch run (global_event EVENT_UPDATE_START) st))))"
  using service_loop_returns [OF kv sf len]
  by (simp add: E_ServiceQueue_def e_handle_event_returns [OF kv])

text \<open>
  C8. Whatever the handlers do, a dispatch that returns has run, one after the other
  and in the order of their registration, exactly the handlers registered under the
  event's key whose mask meets the simulation state, table and simulation state taken
  as they were when the dispatch began. A call of \<open>E_ServiceQueue\<close> that returns has
  dispatched the global update-start event, then the events \<open>es\<close>, each taken from the
  front of the queue, until the queue was empty, then the global update-ui event and
  the global update-end event, and the state it returns is the one these dispatches
  lead to; with handlers that only add at the back of the queue, \<open>es\<close> are the events
  that were queued at the call, in their order, followed by the events queued while it
  ran. With handlers that leave alone the vector of the event they run for, the call
  returns with as much fuel as events are serviced before the queue is empty; with
  handlers that leave the queue alone as well, these are the events queued at the
  call. The key of a receiver and an event type determines both, and registering a
  handler puts it behind those already registered under its key.
\<close>

theorem E_ServiceQueue_dispatch_order:
  "(e_handle_event run event st = Some st1 \<longrightarrow>
      st1 = fold (\<lambda>h. run h event) (handlers_for st event) st)
   \<and> (E_ServiceQueue run fuel st = Some st' \<longrightarrow>
        (\<exists>es. length es \<le> fuel
           \<and> serviced_fifo run es (dispatch run (global_event EVENT_UPDATE_START) st)
           \<and> st' = dispatch run (global_event EVENT_UPDATE_END)
                     (dispatch run (global_event EVENT_UPDATE_UI)
                        (drain run es (dispatch run (global_event EVENT_UPDATE_START) st)))
           \<and> (appends_only run \<longrightarrow> (\<exists>ps. es = s_event_queue st @ ps))))
   \<and> (keeps_vector run
        \<and> serviced_fifo run es0 (dispatch run (global_event EVENT_UPDATE_START) st) \<longrightarrow>
        E_ServiceQueue run (length es0) st =
          Some (dispatch run (global_event EVENT_UPDATE_END)
                 (dispatch run (global_event EVENT_UPDATE_UI)
                    (drain run es0 (dispatch run (global_event EVENT_UPDATE_START) st)))))
   \<and> (queue_untouched run \<longrightarrow>
        serviced_fifo run (s_event_queue st) (dispatch run (global_event EVENT_UPDATE_START) st))
   \<and> (\<forall>a x b y. e_key a x = e_key b y \<longleftrightarrow> a = b \<and> x = y)
   \<and> (\<forall>key desc. s_event_handler_table (snd (e_register_handler key desc st)) key
        = Some ((case s_event_handler_table st key of None \<Rightarrow> [] | Some vec \<Rightarrow> vec) @ [desc]))"
proof -
  let ?S = "global_event EVENT_UPDATE_START"
  let ?U = "global_event EVENT_UPDATE_UI"
  let ?E = "global_event EVENT_UPDATE_END"
  have A: "e_handle_event run event st = Some st1 \<longrightarrow>
      st1 = fold (\<lambda>h. run h event) (handlers_for st event) st"
    using e_handle_event_dispatch [of run event st st1] by (simp add: dispatch_def)
  have B: "E_ServiceQueue run fuel st = Some st' \<longrightarrow>
        (\<exists>es. length es \<le> fuel
           \<and> serviced_fifo run es (dispatch run ?S st)
           \<and> st' = dispatch run ?E (dispatch run ?U (drain run es (dispatch run ?S st)))
           \<and> (appends_only run \<longrightarrow> (\<exists>ps. es = s_event_queue st @ ps)))"
  proof
    assume r: "E_ServiceQueue run fuel st = Some st'"
    then obtain s1 s2 s3 where h1: "e_handle_event run ?S st = Some s1"
      and l: "service_loop run fuel s1 = Some s2"
      and h3: "e_handle_event run ?U s2 = Some s3"
      and h4: "e_handle_event run ?E s3 = Some st'"
      by (auto simp: E_ServiceQueue_def split: option.splits)
    note d1 = e_handle_event_dispatch [OF h1]
    from service_loop_fifo [OF l] obtain es where
      es: "length es \<le> fuel" "serviced_fifo run es s1" "s2 = drain run es s1"
      by (elim exE conjE)
    have st': "st' = dispatch run ?E (dispatch run ?U (drain run es (dispatch run ?S st)))"
      using e_handle_event_dispatch [OF h3] e_handle_event_dispatch [OF h4] es(3) d1 by simp
    have ap: "appends_only run \<longrightarrow> (\<exists>ps. es = s_event_queue st @ ps)"
    proof
      assume a: "appends_only run"
      from serviced_fifo_appends [OF a es(2)] obtain ps2 where "es = s_event_queue s1 @ ps2"
        by (elim exE)
      moreover from dispatch_appends [OF a, of ?S st] d1 obtain ps1 where
        "s_event_queue s1 = s_event_queue st @ ps1" by auto
      ultimately have "es = s_event_queue st @ (ps1 @ ps2)" by simp
      then show "\<exists>ps. es = s_event_queue st @ ps" by (rule exI)
    qed
    from es(1) es(2) st' ap d1
    have "length es \<le> fuel
           \<and> serviced_fifo run es (dispatch run ?S st)
           \<and> st' = dispatch run ?E (dispatch run ?U (drain run es (dispatch run ?S st)))
           \<and> (appends_only run \<longrightarrow> (\<exists>ps. es = s_event_queue st @ ps))"
      by simp
    then show "\<exists>es. length es \<le> fuel
           \<and> serviced_fifo run es (dispatch run ?S st)
           \<and> st' = dispatch run ?E (dispatch run ?U (drain run es (dispatch run ?S st)))
           \<and> (appends_only run \<longrightarrow> (\<exists>ps. es = s_event_queue st @ ps))"
      by (rule exI)
  qed
  have C: "keeps_vector run \<and> serviced_fifo run es0 (dispatch run ?S st) \<longrightarrow>
        E_ServiceQueue run (length es0) st =
          Some (dispatch run ?E (dispatch run ?U (drain run es0 (dispatch run ?S st))))"
    using E_ServiceQueue_returns [of run es0 st "length es0"] by simp
  have D: "queue_untouched run \<longrightarrow> serviced_fifo run (s_event_queue st) (dispatch run ?S st)"
  proof
    assume qu: "queue_untouched run"
    from dispatch_queue_untouched [OF qu, of ?S st]
    show "serviced_fifo run (s_event_queue st) (dispatch run ?S st)"
      by (rule serviced_fifo_queue_untouched [OF qu])
  qed
  have E: "\<forall>a x b y. e_key a x = e_key b y \<longleftrightarrow> a = b \<and> x = y"
    by (simp add: e_key_inj)
  have F: "\<forall>key desc. s_event_handler_table (snd (e_register_handler key desc st)) key
        = Some ((case s_event_handler_table st key of None \<Rightarrow> [] | Some vec \<Rightarrow> vec) @ [desc])"
    by (simp add: e_register_handler_appends)
  from A B C D E F show ?thesis by (intro conjI)
qed

lemma ex_bus_keys:
  "EVENT_UPDATE_START \<noteq> EVENT_UPDATE_UI" "EVENT_UPDATE_START \<noteq> EVENT_UPDATE_END"
  "EVENT_UPDATE_END \<noteq> EVENT_UPDATE_UI" "EVENT_ANIM_CYCLE_FINISHED \<noteq> EVENT_UPDATE_START"
  "EVENT_ANIM_CYCLE_FINISHED \<noteq> EVENT_UPDATE_UI" "EVENT_ANIM_CYCLE_FINISHED \<noteq> EVENT_UPDATE_END"
  "GLOBAL_ID \<noteq> 7"
  by (simp_all add: EVENT_UPDATE_START_def EVENT_UPDATE_UI_def EVENT_UPDATE_END_def
        EVENT_ANIM_CYCLE_FINISHED_def GLOBAL_ID_def)

lemma ex_bus_masks:
  "G_RUNNING AND G_RUNNING \<noteq> 0" "G_PAUSED_FULL AND G_RUNNING = 0"
  "G_RUNNING AND G_PAUSED_FULL = 0" "G_PAUSED_FULL AND G_PAUSED_FULL \<noteq> 0"
  "(G_RUNNING OR G_PAUSED_FULL) AND G_RUNNING \<noteq> 0"
  "(G_RUNNING OR G_PAUSED_FULL) AND G_PAUSED_FULL \<noteq> 0"
  by (simp_all add: G_RUNNING_def G_PAUSED_FULL_def)

lemma ex_run_keeps: "keeps_vector ex_run" "queue_untouched ex_run" "appends_only ex_run"
  by (simp_all add: keeps_vector_def queue_untouched_def appends_only_def ex_run_def)

lemma ex_pause_run_keeps: "keeps_vector ex_pause_run" "queue_untouched ex_pause_run"
  by (simp_all add: keeps_vector_def queue_untouched_def ex_pause_run_def)

lemma ex_run_drained:
  "dispatch ex_run (global_event EVENT_UPDATE_END)
     (dispatch ex_run (global_event EVENT_UPDATE_UI)
        (drain ex_run (s_event_queue ex_bus)
           (dispatch ex_run (global_event EVENT_UPDATE_START) ex_bus)))
   = ex_bus\<lparr>s_event_queue := [], world := [1, 3, 4]\<rparr>"
  using ex_bus_keys ex_bus_keys [symmetric] ex_bus_masks
  by (simp add: dispatch_def handlers_for_def ex_bus_def ex_event_def global_event_def
        e_key_inj ex_handler_def ex_run_def)

lemma ex_pause_run_drained:
  "dispatch ex_pause_run (global_event EVENT_UPDATE_END)
     (dispatch ex_pause_run (global_event EVENT_UPDATE_UI)
        (drain ex_pause_run (s_event_queue ex_bus)
           (dispatch ex_pause_run (global_event EVENT_UPDATE_START) ex_bus)))
   = ex_bus\<lparr>s_event_queue := [], sim_state := G_PAUSED_FULL, world := [1, 3, 5]\<rparr>"
  using ex_bus_keys ex_bus_keys [symmetric] ex_bus_masks
  by (simp add: dispatch_def handlers_for_def ex_bus_def ex_event_def global_event_def
        e_key_inj ex_handler_def ex_pause_run_def)

theorem E_ServiceQueue_dispatch_order_witness:
  "keeps_vector ex_run \<and> queue_untouched ex_run \<and> appends_only ex_run
   \<and> serviced_fifo ex_run [ex_event] (dispatch ex_run (global_event EVENT_UPDATE_START) ex_bus)
   \<and> E_ServiceQueue ex_run 1 ex_bus = Some (ex_bus\<lparr>s_event_queue := [], world := [1, 3, 4]\<rparr>)
   \<and> keeps_vector ex_pause_run \<and> queue_untouched ex_pause_run
   \<and> E_ServiceQueue ex_pause_run 1 ex_bus
       = Some (ex_bus\<lparr>s_event_queue := [], sim_state := G_PAUSED_FULL, world := [1, 3, 5]\<rparr>)"
proof -
  have q: "s_event_queue ex_bus = [ex_event]"
    by (simp add: ex_bus_def)
  from E_ServiceQueue_dispatch_order [of ex_run _ ex_bus _ _ _ "s_event_queue ex_bus"] ex_run_keeps
  have a: "serviced_fifo ex_run (s_event_queue ex_bus)
             (dispatch ex_run (global_event EVENT_UPDATE_START) ex_bus)"
    and b: "E_ServiceQueue ex_run (length (s_event_queue ex_bus)) ex_bus
            = Some (ex_bus\<lparr>s_event_queue := [], world := [1, 3, 4]\<rparr>)"
    by (simp_all add: ex_run_drained)
  from E_ServiceQueue_dispatch_order [of ex_pause_run _ ex_bus _ _ _ "s_event_queue ex_bus"]
    ex_pause_run_keeps
  have c: "E_ServiceQueue ex_pause_run (length (s_event_queue ex_bus)) ex_bus
            = Some (ex_bus\<lparr>s_event_queue := [], sim_state := G_PAUSED_FULL, world := [1, 3, 5]\<rparr>)"
    by (simp add: ex_pause_run_drained)
  from a b c ex_run_keeps ex_pause_run_keeps show ?thesis
    by (simp add: q)
qed

section \<open>Properties of the game state\<close>

lemma and_push_bit_1: "(fl AND push_bit n 1 \<noteq> 0) = bit fl n" for fl :: flags_t
  unfolding push_bit_of_1 by (simp add: and_exp_eq_0_iff_not_bit)

lemma flag_bits:
  "flag_set fl ENTITY_FLAG_ANIMATED = bit fl 0"
  "flag_set fl ENTITY_FLAG_COLLISION = bit fl 1"
  "flag_set fl ENTITY_FLAG_SELECTABLE = bit fl 2"
  "flag_set fl ENTITY_FLAG_STATIC = bit fl 3"
  "flag_set fl ENTITY_FLAG_COMBATABLE = bit fl 4"
  "flag_set fl ENTITY_FLAG_INVISIBLE = bit fl 5"
  "flag_set fl ENTITY_FLAG_ZOMBIE = bit fl 6"
  unfolding flag_set_def ENTITY_FLAG_ANIMATED_def ENTITY_FLAG_COLLISION_def
    ENTITY_FLAG_SELECTABLE_def ENTITY_FLAG_STATIC_def ENTITY_FLAG_COMBATABLE_def
    ENTITY_FLAG_INVISIBLE_def ENTITY_FLAG_ZOMBIE_def
  by (rule and_push_bit_1)+

lemma zombiefy_flags:
  "zombie_flags (((((((fl AND NOT ENTITY_FLAG_SELECTABLE) AND NOT ENTITY_FLAG_COLLISION)
      AND NOT ENTITY_FLAG_COMBATABLE) AND NOT ENTITY_FLAG_ANIMATED)
      OR ENTITY_FLAG_INVISIBLE) OR ENTITY_FLAG_STATIC) OR ENTITY_FLAG_ZOMBIE)"
  unfolding zombie_flags_def flag_bits
  unfolding ENTITY_FLAG_ANIMATED_def ENTITY_FLAG_COLLISION_def
    ENTITY_FLAG_SELECTABLE_def ENTITY_FLAG_STATIC_def ENTITY_FLAG_COMBATABLE_def
    ENTITY_FLAG_INVISIBLE_def ENTITY_FLAG_ZOMBIE_def
  by (simp add: bit_simps)

lemma invisible_or_keeps:
  "\<not> flag_set fl ENTITY_FLAG_COLLISION \<or> flag_set fl ENTITY_FLAG_INVISIBLE \<Longrightarrow>
   \<not> flag_set (fl OR ENTITY_FLAG_INVISIBLE) ENTITY_FLAG_COLLISION
     \<or> flag_set (fl OR ENTITY_FLAG_INVISIBLE) ENTITY_FLAG_INVISIBLE"
  unfolding flag_bits
  unfolding ENTITY_FLAG_INVISIBLE_def
  by (simp add: bit_simps)

lemma A_Update_flags:
  assumes "A_Update t t' e q = Some (e', q')"
  shows "flags e' = flags e \<or> flags e' = flags e OR ENTITY_FLAG_INVISIBLE"
proof (cases "frame_elapsed t (anim_ctx e)")
  case False
  with assms show ?thesis by (simp add: A_Update_def)
next
  case True
  let ?n = "num_frames (anims (anim_private e) ! active (anim_ctx e))"
  have ok: "active (anim_ctx e) < length (anims (anim_private e)) \<and> ?n \<noteq> 0"
  proof (rule ccontr)
    assume "\<not> (active (anim_ctx e) < length (anims (anim_private e)) \<and> ?n \<noteq> 0)"
    with True have "A_Update t t' e q = None" by (auto simp: A_Update_def Let_def)
    with assms show False by simp
  qed
  show ?thesis
  proof (cases "(curr_frame (anim_ctx e) + 1) mod ?n = 0")
    case False
    with True ok assms show ?thesis by (auto simp: A_Update_def Let_def)
  next
    case wrap: True
    show ?thesis
    proof (cases "mode (anim_ctx e)")
      case ANIM_MODE_LOOP
      with True ok wrap assms show ?thesis by (auto simp: A_Update_def Let_def)
    next
      case ANIM_MODE_ONCE
      with True ok wrap assms show ?thesis
        by (auto simp: A_Update_def Let_def A_SetActiveClip_def split: if_splits option.splits)
    next
      case ANIM_MODE_ONCE_HIDE_ON_FINISH
      with True ok wrap assms show ?thesis
        by (auto simp: A_Update_def Let_def A_SetActiveClip_def split: if_splits option.splits)
    qed
  qed
qed

lemma update_ent_hidden:
  assumes u: "update_ent env r s = Some s'" and h: "hidden p s"
  shows "hidden p s' \<and> (p \<notin> set (visible s) \<longrightarrow> p \<notin> set (visible s'))
       \<and> (p \<notin> set (light_visible s) \<longrightarrow> p \<notin> set (light_visible s'))"
proof -
  from u obtain cur where c: "heap s r = Some cur"
    by (auto simp: update_ent_def split: option.splits)
  define run where "run = (ss s = G_RUNNING \<and> flag_set (flags cur) ENTITY_FLAG_ANIMATED)"
  show ?thesis
  proof (cases run)
    case False
    then have a: "\<not> (ss s = G_RUNNING \<and> flag_set (flags cur) ENTITY_FLAG_ANIMATED)"
      by (simp add: run_def)
    show ?thesis
    proof (cases "r = p")
      case True
      with h c have "\<not> flag_set (flags cur) ENTITY_FLAG_COLLISION \<or> flag_set (flags cur) ENTITY_FLAG_INVISIBLE"
        by (simp add: hidden_def)
      with u c a have "s' = s"
        by (auto simp: update_ent_def split: if_splits)
      with h show ?thesis by simp
    next
      case False
      with u c a h show ?thesis
        by (auto simp: update_ent_def hidden_def Let_def split: if_splits)
    qed
  next
    case True
    then have a: "ss s = G_RUNNING \<and> flag_set (flags cur) ENTITY_FLAG_ANIMATED"
      by (simp add: run_def)
    with u c obtain cur' q' where
      au: "A_Update (fst (ticks_at env r)) (snd (ticks_at env r)) cur (events s) = Some (cur', q')"
      by (auto simp: update_ent_def split: option.splits)
    define s1 where "s1 = s\<lparr>heap := (heap s)(r \<mapsto> cur'), events := q'\<rparr>"
    from A_Update_flags [OF au]
    have fl: "flags cur' = flags cur \<or> flags cur' = flags cur OR ENTITY_FLAG_INVISIBLE" .
    have h1: "hidden p s1"
    proof (cases "r = p")
      case True
      with h c have "\<not> flag_set (flags cur) ENTITY_FLAG_COLLISION \<or> flag_set (flags cur) ENTITY_FLAG_INVISIBLE"
        by (simp add: hidden_def)
      with fl invisible_or_keeps [of "flags cur"]
      have "\<not> flag_set (flags cur') ENTITY_FLAG_COLLISION \<or> flag_set (flags cur') ENTITY_FLAG_INVISIBLE"
        by auto
      with True show ?thesis by (simp add: hidden_def s1_def)
    next
      case False
      with h show ?thesis by (simp add: hidden_def s1_def)
    qed
    show ?thesis
    proof (cases "r = p")
      case True
      with h1 have "\<not> flag_set (flags cur') ENTITY_FLAG_COLLISION \<or> flag_set (flags cur') ENTITY_FLAG_INVISIBLE"
        by (simp add: hidden_def s1_def)
      with u c a au have "s' = s1"
        by (auto simp: update_ent_def s1_def split: if_splits)
      with h1 show ?thesis by (simp add: s1_def)
    next
      case False
      from u c a au have "s' = s1 \<or> (\<exists>s2. s' = s2 \<and> heap s2 = heap s1
           \<and> set (visible s2) \<subseteq> insert r (set (visible s1))
           \<and> set (light_visible s2) \<subseteq> insert r (set (light_visible s1)))"
        by (auto simp: update_ent_def s1_def Let_def split: if_splits)
      with h1 False show ?thesis
        by (auto simp: hidden_def s1_def)
    qed
  qed
qed

lemma update_ent_keeps_unanimated:
  assumes u: "update_ent env r s = Some s'" and h: "heap s p = Some e"
    and na: "\<not> flag_set (flags e) ENTITY_FLAG_ANIMATED"
  shows "heap s' p = Some e"
proof -
  from u obtain cur where c: "heap s r = Some cur"
    by (auto simp: update_ent_def split: option.splits)
  show ?thesis
  proof (cases "ss s = G_RUNNING \<and> flag_set (flags cur) ENTITY_FLAG_ANIMATED")
    case False
    with u c have "heap s' = heap s"
      by (auto simp: update_ent_def Let_def split: if_splits)
    with h show ?thesis by simp
  next
    case True
    with h c na have ne: "r \<noteq> p" by auto
    from True u c obtain cur' q' where
      "A_Update (fst (ticks_at env r)) (snd (ticks_at env r)) cur (events s) = Some (cur', q')"
      by (auto simp: update_ent_def split: option.splits)
    with True u c have "heap s' = (heap s)(r \<mapsto> cur')"
      by (auto simp: update_ent_def Let_def split: if_splits)
    with h ne show ?thesis by simp
  qed
qed

lemma update_ents_hidden:
  "update_ents env ps s = Some s' \<Longrightarrow> hidden p s \<Longrightarrow>
     p \<notin> set (visible s) \<Longrightarrow> p \<notin> set (light_visible s) \<Longrightarrow>
     p \<notin> set (visible s') \<and> p \<notin> set (light_visible s')"
proof (induction ps arbitrary: s)
  case Nil
  then show ?case by simp
next
  case (Cons r ps)
  from Cons.prems(1) obtain s1 where u: "update_ent env r s = Some s1"
    and rest: "update_ents env ps s1 = Some s'"
    by (auto split: option.splits)
  from update_ent_hidden [OF u Cons.prems(2)] Cons.prems(3,4)
  have "hidden p s1" "p \<notin> set (visible s1)" "p \<notin> set (light_visible s1)"
    by simp_all
  with Cons.IH [OF rest] show ?case by simp
qed

lemma update_ents_keeps_unanimated:
  "update_ents env ps s = Some s' \<Longrightarrow> heap s p = Some e \<Longrightarrow>
     \<not> flag_set (flags e) ENTITY_FLAG_ANIMATED \<Longrightarrow> heap s' p = Some e"
proof (induction ps arbitrary: s)
  case Nil
  then show ?case by simp
next
  case (Cons r ps)
  from Cons.prems(1) obtain s1 where u: "update_ent env r s = Some s1"
    and rest: "update_ents env ps s1 = Some s'"
    by (auto split: option.splits)
  from update_ent_keeps_unanimated [OF u Cons.prems(2,3)]
  have "heap s1 p = Some e" .
  from Cons.IH [OF rest this Cons.prems(3)] show ?case .
qed

text \<open>
  C10. When \<open>G_Zombiefy\<close> returns, the entity is as it was but for its flags, of which
  selectable, collision, combatable and animated are clear and invisible, static and
  zombie are set. And from any state in which the entity carries such flags, a
  \<open>G_Update\<close> that returns has put it neither into the visible nor into the
  light-visible set, and has left the entity as it was; so the same holds for every
  later update.
\<close>

theorem G_Zombiefy_never_visible:
  "(G_Zombiefy p s = Some s1 \<longrightarrow>
      (\<exists>e e1. heap s p = Some e \<and> heap s1 p = Some e1 \<and> zombie_flags (flags e1)
         \<and> e1 = e\<lparr>flags := flags e1\<rparr>))
   \<and> (heap s1 p = Some e1 \<and> zombie_flags (flags e1) \<and> G_Update env s1 = Some s2 \<longrightarrow>
        p \<notin> set (visible s2) \<and> p \<notin> set (light_visible s2) \<and> heap s2 p = Some e1)"
proof (rule conjI; rule impI)
  assume z: "G_Zombiefy p s = Some s1"
  then obtain e where e: "heap s p = Some e"
    by (auto simp: G_Zombiefy_def split: option.splits)
  let ?f = "((((((flags e AND NOT ENTITY_FLAG_SELECTABLE) AND NOT ENTITY_FLAG_COLLISION)
      AND NOT ENTITY_FLAG_COMBATABLE) AND NOT ENTITY_FLAG_ANIMATED)
      OR ENTITY_FLAG_INVISIBLE) OR ENTITY_FLAG_STATIC) OR ENTITY_FLAG_ZOMBIE"
  from z e have "heap s1 p = Some (e\<lparr>flags := ?f\<rparr>)"
    by (auto simp: G_Zombiefy_def Let_def split: option.splits if_splits)
  with e zombiefy_flags [of "flags e"]
  show "\<exists>e e1. heap s p = Some e \<and> heap s1 p = Some e1 \<and> zombie_flags (flags e1)
         \<and> e1 = e\<lparr>flags := flags e1\<rparr>"
    by simp
next
  assume a: "heap s1 p = Some e1 \<and> zombie_flags (flags e1) \<and> G_Update env s1 = Some s2"
  let ?s = "s1\<lparr>visible := [], light_visible := []\<rparr>"
  from a have u: "update_ents env (map snd (active_ents s1)) ?s = Some s2"
    by (simp add: G_Update_def)
  from a have h: "hidden p ?s" and na: "\<not> flag_set (flags e1) ENTITY_FLAG_ANIMATED"
    by (simp_all add: hidden_def zombie_flags_def)
  from update_ents_hidden [OF u h] update_ents_keeps_unanimated [OF u _ na] a
  show "p \<notin> set (visible s2) \<and> p \<notin> set (light_visible s2) \<and> heap s2 p = Some e1"
    by simp
qed

lemma fold_AL_EntityFree:
  "fold AL_EntityFree ps h = (\<lambda>p. if p \<in> set ps then None else h p)"
  by (induction ps arbitrary: h) (auto simp: AL_EntityFree_def fun_eq_iff)

text \<open>
  C2. In a state whose workspace index is 0 or 1, \<open>G_SwapBuffers\<close> returns exactly
  when the command queue of the render workspace has been drained. When it returns,
  the workspace \<open>G_GetSimWS\<close> gives is the one \<open>G_GetRenderWS\<close> gave before and the
  other way round (the index flips between 0 and 1); the command queue of the new
  simulation workspace has length 0 and its arena is empty; the workspace the renderer
  reads next is the one the simulation wrote, unchanged; and the deferred-free list is
  empty, every entity that was on it freed.
\<close>

theorem G_SwapBuffers_flips_and_clears:
  assumes reach: "curr_ws_idx s = 0 \<or> curr_ws_idx s = 1"
  shows "(G_SwapBuffers s \<noteq> None \<longleftrightarrow> length (commands (ws s (nat (G_GetRenderWS s)))) = 0)
    \<and> (G_SwapBuffers s = Some s' \<longrightarrow>
         G_GetSimWS s' = G_GetRenderWS s \<and> G_GetRenderWS s' = G_GetSimWS s
         \<and> curr_ws_idx s' = 1 - curr_ws_idx s
         \<and> length (commands (ws s' (nat (G_GetSimWS s')))) = 0
         \<and> args (ws s' (nat (G_GetSimWS s'))) = []
         \<and> ws s' (nat (G_GetRenderWS s')) = ws s (nat (G_GetSimWS s))
         \<and> deleted s' = []
         \<and> (\<forall>p \<in> set (deleted s). heap s' p = None))"
  using reach
  by (auto simp: G_SwapBuffers_def G_GetSimWS_def G_GetRenderWS_def c_rem_def Let_def
        R_ClearWS_def fold_AL_EntityFree split: if_splits)

lemma memmove_shift:
  "memmove a f (Suc f) n i = (if f \<le> i \<and> i < f + n then a (Suc i) else a i)"
  by (simp add: memmove_def)

lemma fold_rows_upd:
  "fold (\<lambda>i t. t(i := g (t i))) [0..<m] t = (\<lambda>i. if i < m then g (t i) else t i)"
proof (induction m)
  case 0
  show ?case by simp
next
  case (Suc m)
  then show ?case by (auto simp: fun_eq_iff)
qed

lemma fold_peace:
  "fold (\<lambda>i t. let t1 = t(i := (t i)(n := v)) in t1(n := (t1 n)(i := v))) [0..<m] t
   = (\<lambda>a b. if (a < m \<and> b = n) \<or> (a = n \<and> b < m) then v else t a b)"
proof (induction m)
  case 0
  show ?case by simp
next
  case (Suc m)
  then show ?case by (auto simp: fun_eq_iff Let_def)
qed

lemma G_RemoveEntity_factions:
  "G_RemoveEntity p s = Some (r, s') \<Longrightarrow>
     num_factions s' = num_factions s \<and> diplomacy_table s' = diplomacy_table s
     \<and> factions s' = factions s"
  by (auto simp: G_RemoveEntity_def Let_def split: option.splits if_splits)

lemma remove_faction_ents_factions:
  "remove_faction_ents fid es s = Some s' \<Longrightarrow>
     num_factions s' = num_factions s \<and> diplomacy_table s' = diplomacy_table s
     \<and> factions s' = factions s"
proof (induction es arbitrary: s)
  case Nil
  then show ?case by simp
next
  case (Cons kp es)
  obtain k p where kp: "kp = (k, p)" by (cases kp)
  show ?case
  proof (cases "kh_get (active_ents s) k \<noteq> Some p")
    case True
    with Cons.prems kp have "remove_faction_ents fid es s = Some s'" by simp
    from Cons.IH [OF this] show ?thesis .
  next
    case False
    then have ex: "kh_get (active_ents s) k = Some p" by simp
    from Cons.prems kp ex obtain cur where c: "heap s p = Some cur"
      by (auto split: option.splits)
    show ?thesis
    proof (cases "faction_id cur = fid")
      case True
      with Cons.prems kp ex c obtain r s1 where re: "G_RemoveEntity p s = Some (r, s1)"
        and rest: "remove_faction_ents fid es s1 = Some s'"
        by (auto split: option.splits)
      from Cons.IH [OF rest] G_RemoveEntity_factions [OF re]
      show ?thesis by simp
    next
      case ne: False
      show ?thesis
      proof (cases "faction_id cur > fid")
        case True
        with Cons.prems kp ex c ne have rest: "remove_faction_ents fid es
                 (s\<lparr>heap := (heap s)(p \<mapsto> cur\<lparr>faction_id := faction_id cur - 1\<rparr>)\<rparr>) = Some s'"
          by simp
        from Cons.IH [OF rest] show ?thesis by simp
      next
        case False
        with Cons.prems kp ex c ne have rest: "remove_faction_ents fid es s = Some s'"
          by simp
        from Cons.IH [OF rest] show ?thesis .
      qed
    qed
  qed
qed

lemma G_RemoveFaction_table:
  assumes "G_RemoveFaction fid s = Some (True, s')"
  shows "0 \<le> fid \<and> nat fid < num_factions s \<and> 2 \<le> num_factions s
     \<and> num_factions s' = num_factions s - 1
     \<and> diplomacy_table s' = (\<lambda>i j.
          let n = num_factions s; f = nat fid;
              row = (if f \<le> i \<and> i < n - 1 then diplomacy_table s (i + 1) else diplomacy_table s i)
          in if i < n - 1 \<and> f \<le> j \<and> j < n - 1 then row (j + 1) else row j)"
proof -
  from assms have g: "2 \<le> num_factions s" "0 \<le> fid" "fid < int (num_factions s)"
    by (auto simp: G_RemoveFaction_def split: if_splits)
  with assms obtain s1 where r: "remove_faction_ents fid (active_ents s) s = Some s1"
    by (auto simp: G_RemoveFaction_def split: option.splits if_splits)
  from remove_faction_ents_factions [OF r]
  have k: "num_factions s1 = num_factions s" "diplomacy_table s1 = diplomacy_table s" by simp_all
  define f where "f = nat fid"
  define n where "n = num_factions s"
  from g have fn: "f < n" "2 \<le> n" by (simp_all add: f_def n_def)
  from assms g r k have n': "num_factions s' = n - 1"
    and t: "diplomacy_table s' =
      fold (\<lambda>i t. t(i := memmove (t i) f (f + 1) (n - f - 1))) [0..<n - 1]
        (memmove (diplomacy_table s) f (f + 1) (n - f - 1))"
    by (auto simp: G_RemoveFaction_def Let_def f_def n_def)
  have t': "diplomacy_table s' = (\<lambda>i j.
          let row = (if f \<le> i \<and> i < n - 1 then diplomacy_table s (i + 1) else diplomacy_table s i)
          in if i < n - 1 \<and> f \<le> j \<and> j < n - 1 then row (j + 1) else row j)"
    unfolding t fold_rows_upd [where g = "\<lambda>r. memmove r f (f + 1) (n - f - 1)"]
    using fn by (auto simp: memmove_shift fun_eq_iff Let_def)
  from g n' t' show ?thesis
    by (simp add: f_def n_def Let_def)
qed

text \<open>
  C7. \<open>G_SetDiplomacyState a b ds\<close> succeeds exactly when both ids are those of
  factions and differ; it then sets both \<open>state[a][b]\<close> and \<open>state[b][a]\<close> to \<open>ds\<close>,
  changes no other entry and keeps a symmetric table symmetric; otherwise it returns
  false and the state is unchanged. After a successful \<open>G_RemoveFaction f\<close> there is
  one faction less, the entry of two surviving factions \<open>x\<close> and \<open>y\<close> stands at
  their renumbered indices, and a symmetric table is symmetric still.
\<close>

theorem diplomacy_symmetric_and_compacts:
  "(G_SetDiplomacyState a b ds s = (ok, s') \<longrightarrow>
      (ok \<longleftrightarrow> 0 \<le> a \<and> a < int (num_factions s) \<and> 0 \<le> b \<and> b < int (num_factions s) \<and> a \<noteq> b)
      \<and> (ok \<longrightarrow> diplomacy_table s' (nat a) (nat b) = ds
                \<and> diplomacy_table s' (nat b) (nat a) = ds
                \<and> (\<forall>x y. (x, y) \<noteq> (nat a, nat b) \<and> (x, y) \<noteq> (nat b, nat a)
                      \<longrightarrow> diplomacy_table s' x y = diplomacy_table s x y)
                \<and> (diplomacy_symmetric (num_factions s) (diplomacy_table s)
                      \<longrightarrow> diplomacy_symmetric (num_factions s') (diplomacy_table s')))
      \<and> (\<not> ok \<longrightarrow> s' = s))
   \<and> (G_RemoveFaction f s = Some (True, s'') \<longrightarrow>
        0 \<le> f \<and> nat f < num_factions s
        \<and> num_factions s'' = num_factions s - 1
        \<and> (\<forall>x < num_factions s. \<forall>y < num_factions s. x \<noteq> nat f \<and> y \<noteq> nat f \<longrightarrow>
              diplomacy_table s'' (renumbered (nat f) x) (renumbered (nat f) y)
                = diplomacy_table s x y)
        \<and> (diplomacy_symmetric (num_factions s) (diplomacy_table s)
              \<longrightarrow> diplomacy_symmetric (num_factions s'') (diplomacy_table s'')))"
proof (rule conjI; rule impI)
  assume g: "G_SetDiplomacyState a b ds s = (ok, s')"
  show "(ok \<longleftrightarrow> 0 \<le> a \<and> a < int (num_factions s) \<and> 0 \<le> b \<and> b < int (num_factions s) \<and> a \<noteq> b)
      \<and> (ok \<longrightarrow> diplomacy_table s' (nat a) (nat b) = ds
                \<and> diplomacy_table s' (nat b) (nat a) = ds
                \<and> (\<forall>x y. (x, y) \<noteq> (nat a, nat b) \<and> (x, y) \<noteq> (nat b, nat a)
                      \<longrightarrow> diplomacy_table s' x y = diplomacy_table s x y)
                \<and> (diplomacy_symmetric (num_factions s) (diplomacy_table s)
                      \<longrightarrow> diplomacy_symmetric (num_factions s') (diplomacy_table s')))
      \<and> (\<not> ok \<longrightarrow> s' = s)"
  proof (cases "0 \<le> a \<and> a < int (num_factions s) \<and> 0 \<le> b \<and> b < int (num_factions s) \<and> a \<noteq> b")
    case False
    with g show ?thesis
      by (auto simp: G_SetDiplomacyState_def split: if_splits)
  next
    case True
    then have ne: "nat a \<noteq> nat b" by auto
    from True g have ok: "ok"
      and t: "diplomacy_table s' = (\<lambda>x y. if (x, y) = (nat a, nat b) \<or> (x, y) = (nat b, nat a)
                                   then ds else diplomacy_table s x y)"
      and n: "num_factions s' = num_factions s"
      using ne by (auto simp: G_SetDiplomacyState_def Let_def fun_eq_iff)
    have "diplomacy_symmetric (num_factions s) (diplomacy_table s)
            \<longrightarrow> diplomacy_symmetric (num_factions s') (diplomacy_table s')"
      unfolding diplomacy_symmetric_def n t by auto
    with True ok t show ?thesis by auto
  qed
next
  assume g: "G_RemoveFaction f s = Some (True, s'')"
  note r = G_RemoveFaction_table [OF g]
  from r have f: "0 \<le> f" "nat f < num_factions s" and n: "num_factions s'' = num_factions s - 1"
    by simp_all
  from r have t: "diplomacy_table s'' = (\<lambda>i j.
          let n = num_factions s; f = nat f;
              row = (if f \<le> i \<and> i < n - 1 then diplomacy_table s (i + 1) else diplomacy_table s i)
          in if i < n - 1 \<and> f \<le> j \<and> j < n - 1 then row (j + 1) else row j)"
    by simp
  have comp: "\<forall>x < num_factions s. \<forall>y < num_factions s. x \<noteq> nat f \<and> y \<noteq> nat f \<longrightarrow>
              diplomacy_table s'' (renumbered (nat f) x) (renumbered (nat f) y)
                = diplomacy_table s x y"
    unfolding t using f by (auto simp: renumbered_def Let_def)
  have sym: "diplomacy_symmetric (num_factions s) (diplomacy_table s)
              \<longrightarrow> diplomacy_symmetric (num_factions s'') (diplomacy_table s'')"
    unfolding diplomacy_symmetric_def n t using f by (auto simp: Let_def)
  from f n comp sym
  show "0 \<le> f \<and> nat f < num_factions s
        \<and> num_factions s'' = num_factions s - 1
        \<and> (\<forall>x < num_factions s. \<forall>y < num_factions s. x \<noteq> nat f \<and> y \<noteq> nat f \<longrightarrow>
              diplomacy_table s'' (renumbered (nat f) x) (renumbered (nat f) y)
                = diplomacy_table s x y)
        \<and> (diplomacy_symmetric (num_factions s) (diplomacy_table s)
              \<longrightarrow> diplomacy_symmetric (num_factions s'') (diplomacy_table s''))"
    by blast
qed

lemma g_make_draw_list_classifies:
  "g_make_draw_list env h ps (st, an) = Some (st', an') \<Longrightarrow>
     map stat_render_private st'
       = map stat_render_private st @ map render_private (filter (\<lambda>e. \<not> animated e) (vis_ents h ps))
     \<and> map anim_render_private an'
       = map anim_render_private an @ map render_private (filter animated (vis_ents h ps))
     \<and> map stat_model st'
       = map stat_model st @ map (Entity_ModelMatrix env) (filter (\<lambda>e. \<not> animated e) (vis_ents h ps))
     \<and> map anim_model an'
       = map anim_model an @ map (Entity_ModelMatrix env) (filter animated (vis_ents h ps))"
proof (induction ps arbitrary: st an)
  case Nil
  then show ?case by (simp add: vis_ents_def)
next
  case (Cons p ps)
  from Cons.prems obtain cur where c: "h p = Some cur"
    by (auto split: option.splits)
  show ?case
  proof (cases "flag_set (flags cur) ENTITY_FLAG_ANIMATED")
    case True
    with Cons.prems c obtain nj pose ib where
      r: "g_make_draw_list env h ps
            (st, an @ [\<lparr>anim_render_private = render_private cur,
                        anim_model = Entity_ModelMatrix env cur,
                        njoints = nj, curr_pose = pose, inv_bind_pose = ib\<rparr>]) = Some (st', an')"
      by (auto simp: Let_def split: option.splits)
    from Cons.IH [OF r] c True show ?thesis
      by (simp add: vis_ents_def animated_def)
  next
    case False
    with Cons.prems c have
      r: "g_make_draw_list env h ps
            (st @ [\<lparr>stat_render_private = render_private cur,
                     stat_model = Entity_ModelMatrix env cur\<rparr>], an) = Some (st', an')"
      by (simp add: Let_def)
    from Cons.IH [OF r] c False show ?thesis
      by (simp add: vis_ents_def animated_def)
  qed
qed

lemma draw_list_lengths:
  assumes "g_make_draw_list env h ps ([], []) = Some (st', an')"
  shows "length st' + length an' = length ps"
proof -
  from g_make_draw_list_classifies [OF assms]
  have "map stat_render_private st' = map render_private (filter (\<lambda>e. \<not> animated e) (vis_ents h ps))"
    and "map anim_render_private an' = map render_private (filter animated (vis_ents h ps))"
    by simp_all
  then have "length st' = length (filter (\<lambda>e. \<not> animated e) (vis_ents h ps))"
    and "length an' = length (filter animated (vis_ents h ps))"
    by (metis length_map)+
  moreover have "length (filter (\<lambda>e. \<not> animated e) (vis_ents h ps))
      + length (filter animated (vis_ents h ps)) = length (vis_ents h ps)"
    using sum_length_filter_compl [of animated "vis_ents h ps"] by simp
  ultimately show ?thesis by (simp add: vis_ents_def)
qed

text \<open>
  C3. \<open>g_create_render_input\<close> fails only where building one of the two draw lists
  fails, never at its assertions. In every render input it produces, for the
  camera-visible and for the light-visible set alike, the animated list holds the
  render states of exactly the entities of the set whose animated flag is set and the
  static list those of exactly the others, each in the order of the set; so every
  visible entity is in exactly one list and the two lengths add up to the size of the
  set.
\<close>

theorem render_input_classification:
  "(g_create_render_input env s = None \<longleftrightarrow>
      g_make_draw_list env (heap s) (visible s) ([], []) = None
      \<or> g_make_draw_list env (heap s) (light_visible s) ([], []) = None)
   \<and> (g_create_render_input env s = Some out \<longrightarrow>
        length (cam_vis_stat out) + length (cam_vis_anim out) = length (visible s)
      \<and> length (light_vis_stat out) + length (light_vis_anim out) = length (light_visible s)
      \<and> map anim_render_private (cam_vis_anim out)
          = map render_private (filter animated (vis_ents (heap s) (visible s)))
      \<and> map stat_render_private (cam_vis_stat out)
          = map render_private (filter (\<lambda>e. \<not> animated e) (vis_ents (heap s) (visible s)))
      \<and> map anim_render_private (light_vis_anim out)
          = map render_private (filter animated (vis_ents (heap s) (light_visible s)))
      \<and> map stat_render_private (light_vis_stat out)
          = map render_private (filter (\<lambda>e. \<not> animated e) (vis_ents (heap s) (light_visible s))))"
proof (rule conjI)
  show "g_create_render_input env s = None \<longleftrightarrow>
      g_make_draw_list env (heap s) (visible s) ([], []) = None
      \<or> g_make_draw_list env (heap s) (light_visible s) ([], []) = None"
    by (auto simp: g_create_render_input_def dest: draw_list_lengths split: option.splits)
next
  show "g_create_render_input env s = Some out \<longrightarrow>
        length (cam_vis_stat out) + length (cam_vis_anim out) = length (visible s)
      \<and> length (light_vis_stat out) + length (light_vis_anim out) = length (light_visible s)
      \<and> map anim_render_private (cam_vis_anim out)
          = map render_private (filter animated (vis_ents (heap s) (visible s)))
      \<and> map stat_render_private (cam_vis_stat out)
          = map render_private (filter (\<lambda>e. \<not> animated e) (vis_ents (heap s) (visible s)))
      \<and> map anim_render_private (light_vis_anim out)
          = map render_private (filter animated (vis_ents (heap s) (light_visible s)))
      \<and> map stat_render_private (light_vis_stat out)
          = map render_private (filter (\<lambda>e. \<not> animated e) (vis_ents (heap s) (light_visible s)))"
  proof
    assume g: "g_create_render_input env s = Some out"
    then obtain cvs cva lvs lva where
      c: "g_make_draw_list env (heap s) (visible s) ([], []) = Some (cvs, cva)"
      and l: "g_make_draw_list env (heap s) (light_visible s) ([], []) = Some (lvs, lva)"
      and o: "cam_vis_stat out = cvs" "cam_vis_anim out = cva"
             "light_vis_stat out = lvs" "light_vis_anim out = lva"
      by (auto simp: g_create_render_input_def split: option.splits if_splits)
    from draw_list_lengths [OF c] draw_list_lengths [OF l]
      g_make_draw_list_classifies [OF c] g_make_draw_list_classifies [OF l] o
    show "length (cam_vis_stat out) + length (cam_vis_anim out) = length (visible s)
      \<and> length (light_vis_stat out) + length (light_vis_anim out) = length (light_visible s)
      \<and> map anim_render_private (cam_vis_anim out)
          = map render_private (filter animated (vis_ents (heap s) (visible s)))
      \<and> map stat_render_private (cam_vis_stat out)
          = map render_private (filter (\<lambda>e. \<not> animated e) (vis_ents (heap s) (visible s)))
      \<and> map anim_render_private (light_vis_anim out)
          = map render_private (filter animated (vis_ents (heap s) (light_visible s)))
      \<and> map stat_render_private (light_vis_stat out)
          = map render_private (filter (\<lambda>e. \<not> animated e) (vis_ents (heap s) (light_visible s)))"
      by simp
  qed
qed

theorem G_SwapBuffers_flips_and_clears_witness:
  "(curr_ws_idx ex_gs = 0 \<or> curr_ws_idx ex_gs = 1)
   \<and> args (ws ex_gs 1) = [1, 2, 3] \<and> deleted ex_gs = [12] \<and> heap ex_gs 12 \<noteq> None
   \<and> (\<exists>s'. G_SwapBuffers ex_gs = Some s' \<and> G_GetSimWS s' = 1 \<and> G_GetRenderWS s' = 0
         \<and> args (ws s' 1) = [] \<and> length (commands (ws s' 1)) = 0
         \<and> deleted s' = [] \<and> heap s' 12 = None)"
proof -
  have r: "curr_ws_idx ex_gs = 0 \<or> curr_ws_idx ex_gs = 1"
    by (simp add: ex_gs_def)
  have g: "G_GetRenderWS ex_gs = 1" "G_GetSimWS ex_gs = 0"
    by (simp_all add: G_GetRenderWS_def G_GetSimWS_def ex_gs_def c_rem_def)
  have c: "length (commands (ws ex_gs (nat (G_GetRenderWS ex_gs)))) = 0"
    by (simp add: g) (simp add: ex_gs_def)
  have pre: "args (ws ex_gs 1) = [1, 2, 3]" "deleted ex_gs = [12]" "heap ex_gs 12 \<noteq> None"
    by (simp_all add: ex_gs_def)
  note t = G_SwapBuffers_flips_and_clears [OF r]
  from t c obtain s' where s': "G_SwapBuffers ex_gs = Some s'"
    by blast
  from G_SwapBuffers_flips_and_clears [OF r, of s'] s' g pre
  have "G_GetSimWS s' = 1 \<and> G_GetRenderWS s' = 0
         \<and> args (ws s' 1) = [] \<and> length (commands (ws s' 1)) = 0
         \<and> deleted s' = [] \<and> heap s' 12 = None"
    by auto
  with s' r pre show ?thesis by blast
qed

theorem diplomacy_symmetric_and_compacts_witness:
  "diplomacy_symmetric (num_factions ex_gs) (diplomacy_table ex_gs)
   \<and> diplomacy_table ex_gs 0 2 = DIPLOMACY_STATE_WAR
   \<and> diplomacy_table ex_gs 1 2 = DIPLOMACY_STATE_PEACE
   \<and> (\<exists>s'. G_SetDiplomacyState 1 2 DIPLOMACY_STATE_WAR ex_gs = (True, s')
         \<and> diplomacy_table s' 1 2 = DIPLOMACY_STATE_WAR
         \<and> diplomacy_table s' 2 1 = DIPLOMACY_STATE_WAR
         \<and> diplomacy_symmetric (num_factions s') (diplomacy_table s'))
   \<and> G_SetDiplomacyState 1 1 DIPLOMACY_STATE_WAR ex_gs = (False, ex_gs)
   \<and> G_SetDiplomacyState 1 3 DIPLOMACY_STATE_WAR ex_gs = (False, ex_gs)
   \<and> (\<exists>s''. G_RemoveFaction 1 ex_gs = Some (True, s'')
         \<and> num_factions s'' = 2
         \<and> diplomacy_table s'' 0 1 = DIPLOMACY_STATE_WAR
         \<and> diplomacy_table s'' 1 0 = DIPLOMACY_STATE_WAR
         \<and> diplomacy_symmetric (num_factions s'') (diplomacy_table s''))"
proof -
  have n: "num_factions ex_gs = 3" and t: "diplomacy_table ex_gs = ex_table"
    by (simp_all add: ex_gs_def)
  have sym: "diplomacy_symmetric (num_factions ex_gs) (diplomacy_table ex_gs)"
    unfolding n t by (auto simp: diplomacy_symmetric_def ex_table_def)
  have v: "diplomacy_table ex_gs 0 2 = DIPLOMACY_STATE_WAR"
      "diplomacy_table ex_gs 1 2 = DIPLOMACY_STATE_PEACE"
    by (simp_all add: t ex_table_def)
  obtain ok s' where set: "G_SetDiplomacyState 1 2 DIPLOMACY_STATE_WAR ex_gs = (ok, s')"
    by (cases "G_SetDiplomacyState 1 2 DIPLOMACY_STATE_WAR ex_gs")
  obtain ok1 s1 where set1: "G_SetDiplomacyState 1 1 DIPLOMACY_STATE_WAR ex_gs = (ok1, s1)"
    by (cases "G_SetDiplomacyState 1 1 DIPLOMACY_STATE_WAR ex_gs")
  obtain ok3 s3 where set3: "G_SetDiplomacyState 1 3 DIPLOMACY_STATE_WAR ex_gs = (ok3, s3)"
    by (cases "G_SetDiplomacyState 1 3 DIPLOMACY_STATE_WAR ex_gs")
  have rm: "\<exists>s''. G_RemoveFaction 1 ex_gs = Some (True, s'')"
    by (simp add: G_RemoveFaction_def ex_gs_def kh_get_def kh_del_def G_RemoveEntity_def
          ex_static_ent_def ex_ent_def flag_set_def ENTITY_FLAG_STATIC_def
          ENTITY_FLAG_COLLISION_def ENTITY_FLAG_ANIMATED_def Let_def)
  then obtain s'' where rm': "G_RemoveFaction 1 ex_gs = Some (True, s'')" by blast
  from diplomacy_symmetric_and_compacts [of 1 2 DIPLOMACY_STATE_WAR ex_gs ok s' 1 s''] set rm' sym n
  have a: "ok" "diplomacy_table s' 1 2 = DIPLOMACY_STATE_WAR"
      "diplomacy_table s' 2 1 = DIPLOMACY_STATE_WAR"
      "diplomacy_symmetric (num_factions s') (diplomacy_table s')"
      "num_factions s'' = 2"
      "diplomacy_symmetric (num_factions s'') (diplomacy_table s'')"
    and comp: "\<forall>x < 3. \<forall>y < 3. x \<noteq> 1 \<and> y \<noteq> 1 \<longrightarrow>
              diplomacy_table s'' (renumbered 1 x) (renumbered 1 y) = diplomacy_table ex_gs x y"
    by auto
  from comp have "diplomacy_table s'' (renumbered 1 0) (renumbered 1 2) = diplomacy_table ex_gs 0 2"
     "diplomacy_table s'' (renumbered 1 2) (renumbered 1 0) = diplomacy_table ex_gs 2 0"
    by simp_all
  then have b: "diplomacy_table s'' 0 1 = DIPLOMACY_STATE_WAR"
      "diplomacy_table s'' 1 0 = DIPLOMACY_STATE_WAR"
    by (simp_all add: renumbered_def t ex_table_def)
  from diplomacy_symmetric_and_compacts [of 1 1 DIPLOMACY_STATE_WAR ex_gs ok1 s1 1 s''] set1 n
  have c: "\<not> ok1" "s1 = ex_gs" by auto
  from diplomacy_symmetric_and_compacts [of 1 3 DIPLOMACY_STATE_WAR ex_gs ok3 s3 1 s''] set3 n
  have d: "\<not> ok3" "s3 = ex_gs" by auto
  from sym v set a rm' b set1 c set3 d show ?thesis by simp
qed

lemma ex_draw_lists:
  "g_make_draw_list ex_render_env (heap ex_gs) (visible ex_gs) ([], []) \<noteq> None"
  "g_make_draw_list ex_render_env (heap ex_gs) (light_visible ex_gs) ([], []) \<noteq> None"
  by (simp_all add: ex_gs_def ex_render_env_def ex_static_ent_def ex_ent_def ex_clip_def
        ex_skel_def ex_sqt_def ex_pfm_def A_GetRenderState_def a_make_pose_mat_def
        a_mat_from_sqt_def num_joints_def flag_set_def ENTITY_FLAG_STATIC_def
        ENTITY_FLAG_COLLISION_def ENTITY_FLAG_ANIMATED_def Let_def numeral_3_eq_3
        upt_rec [of 0])

theorem render_input_classification_witness:
  "\<exists>out. g_create_render_input ex_render_env ex_gs = Some out
     \<and> length (cam_vis_stat out) + length (cam_vis_anim out) = 2
     \<and> length (light_vis_stat out) + length (light_vis_anim out) = 1
     \<and> map anim_render_private (cam_vis_anim out) = [1]
     \<and> map stat_render_private (cam_vis_stat out) = [2]
     \<and> map anim_render_private (light_vis_anim out) = []
     \<and> map stat_render_private (light_vis_stat out) = [2]"
proof -
  have an: "animated (ex_ent ANIM_MODE_LOOP 0)" "\<not> animated ex_static_ent"
    by (simp_all add: animated_def ex_static_ent_def ex_ent_def flag_set_def
          ENTITY_FLAG_STATIC_def ENTITY_FLAG_COLLISION_def ENTITY_FLAG_ANIMATED_def)
  have v: "vis_ents (heap ex_gs) (visible ex_gs) = [ex_ent ANIM_MODE_LOOP 0, ex_static_ent]"
      "vis_ents (heap ex_gs) (light_visible ex_gs) = [ex_static_ent]"
      "length (visible ex_gs) = 2" "length (light_visible ex_gs) = 1"
    by (simp_all add: vis_ents_def ex_gs_def)
  have rp: "render_private (ex_ent ANIM_MODE_LOOP 0) = 1" "render_private ex_static_ent = 2"
    by (simp_all add: ex_static_ent_def ex_ent_def)
  from render_input_classification [of ex_render_env ex_gs] ex_draw_lists
  obtain out where o: "g_create_render_input ex_render_env ex_gs = Some out"
    by auto
  from render_input_classification [of ex_render_env ex_gs out] o
  have B: "length (cam_vis_stat out) + length (cam_vis_anim out) = 2
     \<and> length (light_vis_stat out) + length (light_vis_anim out) = 1
     \<and> map anim_render_private (cam_vis_anim out) = [1]
     \<and> map stat_render_private (cam_vis_stat out) = [2]
     \<and> map anim_render_private (light_vis_anim out) = []
     \<and> map stat_render_private (light_vis_stat out) = [2]"
    by (auto simp: v an rp)
  from conjI [OF o B] show ?thesis by (rule exI)
qed

theorem G_Zombiefy_never_visible_witness:
  "\<exists>s1 e1 s2. G_Zombiefy 10 ex_gs = Some s1 \<and> heap s1 10 = Some e1
     \<and> zombie_flags (flags e1)
     \<and> G_Update ex_update_env ex_gs \<noteq> None
     \<and> 10 \<in> set (visible (the (G_Update ex_update_env ex_gs)))
     \<and> G_Update ex_update_env s1 = Some s2
     \<and> 10 \<notin> set (visible s2) \<and> 10 \<notin> set (light_visible s2)
     \<and> visible s2 = [11] \<and> heap s2 10 = Some e1"
proof -
  have fl: "flag_set (flags (ex_ent ANIM_MODE_LOOP 0)) ENTITY_FLAG_ANIMATED"
      "flag_set (flags (ex_ent ANIM_MODE_LOOP 0)) ENTITY_FLAG_COLLISION"
      "\<not> flag_set (flags (ex_ent ANIM_MODE_LOOP 0)) ENTITY_FLAG_INVISIBLE"
      "\<not> flag_set (flags (ex_ent ANIM_MODE_LOOP 0)) ENTITY_FLAG_STATIC"
      "\<not> flag_set (flags ex_static_ent) ENTITY_FLAG_ANIMATED"
      "flag_set (flags ex_static_ent) ENTITY_FLAG_COLLISION"
      "\<not> flag_set (flags ex_static_ent) ENTITY_FLAG_INVISIBLE"
    by (simp_all add: ex_static_ent_def ex_ent_def flag_set_def ENTITY_FLAG_STATIC_def
          ENTITY_FLAG_COLLISION_def ENTITY_FLAG_ANIMATED_def ENTITY_FLAG_INVISIBLE_def)
  have "\<not> frame_elapsed 1400 (anim_ctx (ex_ent ANIM_MODE_LOOP 0))"
    by (simp add: ex_ent_def frame_elapsed_def secs_greater_def elapsed_secs_def
          frame_period_secs_def)
  then have au: "A_Update 1400 1400 (ex_ent ANIM_MODE_LOOP 0) [] = Some (ex_ent ANIM_MODE_LOOP 0, [])"
    by (rule A_Update_not_elapsed)
  have up0: "G_Update ex_update_env ex_gs \<noteq> None
     \<and> 10 \<in> set (visible (the (G_Update ex_update_env ex_gs)))"
    by (simp add: G_Update_def update_ent_def ex_gs_def ex_update_env_def fl au Let_def)
  have u7: "uid (ex_ent ANIM_MODE_LOOP 0) = 7"
    by (simp add: ex_ent_def)
  have "\<exists>s1. G_Zombiefy 10 ex_gs = Some s1 \<and> heap s1 11 = Some ex_static_ent
          \<and> active_ents s1 = [(7, 10), (8, 11)] \<and> ss s1 = G_RUNNING"
    by (simp add: G_Zombiefy_def ex_gs_def fl u7 kh_get_def kh_del_def Let_def)
  then obtain s1 where z: "G_Zombiefy 10 ex_gs = Some s1"
      and h1: "heap s1 11 = Some ex_static_ent" and a1: "active_ents s1 = [(7, 10), (8, 11)]"
      and ss1: "ss s1 = G_RUNNING"
    by blast
  from G_Zombiefy_never_visible [of 10 ex_gs s1] z obtain e1 where e1: "heap s1 10 = Some e1" "zombie_flags (flags e1)"
    by blast
  then have e1f: "\<not> flag_set (flags e1) ENTITY_FLAG_ANIMATED" "\<not> flag_set (flags e1) ENTITY_FLAG_COLLISION"
    by (simp_all add: zombie_flags_def)
  have "\<exists>s2. G_Update ex_update_env s1 = Some s2 \<and> visible s2 = [11]"
    by (simp add: G_Update_def update_ent_def a1 h1 e1 e1f fl ex_update_env_def Let_def)
  then obtain s2 where u: "G_Update ex_update_env s1 = Some s2" and v: "visible s2 = [11]"
    by blast
  from G_Zombiefy_never_visible [of 10 ex_gs s1 e1 ex_update_env s2] e1 u
  have "10 \<notin> set (visible s2) \<and> 10 \<notin> set (light_visible s2) \<and> heap s2 10 = Some e1"
    by blast
  with z e1 up0 u v show ?thesis by blast
qed

section \<open>Properties of scene loading\<close>

lemma ex_scene_load:
  "Scene_Load ex_libc ex_ctor (Some ex_scene_file) ex_gs
     = Some (False, snd (G_AddFaction ''red'' (1, 0, 0) ex_gs))"
  by (simp add: Scene_Load_def ex_scene_file_def ex_libc_def READ_LINE_def
        scene_load_faction_def scene_parse_att_def scene_parse_val_def pf_strtok_r_def
        is_delim_def ATTR_KEY_SIZE_def Let_def)

text \<open>
  The claim C1 as it is written fails: the file of one good faction record and a bad
  line behind it makes \<open>Scene_Load\<close> return false, and the faction stays added.
\<close>

theorem Scene_Load_failure_keeps_faction:
  "Scene_Load ex_libc ex_ctor (Some ex_scene_file) ex_gs \<noteq> None
   \<and> fst (the (Scene_Load ex_libc ex_ctor (Some ex_scene_file) ex_gs)) = False
   \<and> num_factions ex_gs = 3
   \<and> num_factions (snd (the (Scene_Load ex_libc ex_ctor (Some ex_scene_file) ex_gs))) = 4
   \<and> fac_name (factions (snd (the (Scene_Load ex_libc ex_ctor (Some ex_scene_file) ex_gs))) 3)
       = ''red''
   \<and> snd (the (Scene_Load ex_libc ex_ctor (Some ex_scene_file) ex_gs)) \<noteq> ex_gs"
proof -
  have n: "num_factions ex_gs = 3" by (simp add: ex_gs_def)
  have a: "num_factions (snd (G_AddFaction ''red'' (1, 0, 0) ex_gs)) = 4"
      "fac_name (factions (snd (G_AddFaction ''red'' (1, 0, 0) ex_gs)) 3) = ''red''"
    by (simp_all add: G_AddFaction_def n MAX_FACTIONS_def MAX_FAC_NAME_LEN_def Let_def)
  from a(1) n have "snd (G_AddFaction ''red'' (1, 0, 0) ex_gs) \<noteq> ex_gs" by auto
  with n a show ?thesis by (simp add: ex_scene_load)
qed

lemma registry_kept_refl: "registry_kept s s"
  by (simp add: registry_kept_def)

lemma registry_kept_trans:
  assumes a: "registry_kept s s1" and b: "registry_kept s1 s2"
  shows "registry_kept s s2"
proof -
  from a b have n: "num_factions s \<le> num_factions s1" "num_factions s1 \<le> num_factions s2"
    by (simp_all add: registry_kept_def)
  have 1: "factions s2 i = factions s i" if "i < num_factions s" for i
  proof -
    from that n have "i < num_factions s1" by simp
    with a b that show ?thesis by (simp add: registry_kept_def)
  qed
  have 2: "diplomacy_table s2 x y = diplomacy_table s x y"
    if "x < num_factions s" "y < num_factions s" for x y
  proof -
    from that n have "x < num_factions s1" "y < num_factions s1" by simp_all
    with a b that show ?thesis by (simp add: registry_kept_def)
  qed
  have 3: "kh_get (active_ents s2) k = Some p" if "kh_get (active_ents s) k = Some p" for k p
    using a b that by (simp add: registry_kept_def)
  from n 1 2 3 show ?thesis by (simp add: registry_kept_def)
qed

lemma fold_peace_unfolded:
  "fold (\<lambda>i t. t(i := (t i)(n := v),
                  n := (if n = i then (t i)(n := v) else t n)(i := v))) [0..<m] t
   = (\<lambda>a b. if (a < m \<and> b = n) \<or> (a = n \<and> b < m) then v else t a b)"
  using fold_peace [of n v m t] by (simp add: Let_def)

lemma G_AddFaction_kept: "registry_kept s (snd (G_AddFaction name v s))"
  by (auto simp: G_AddFaction_def registry_kept_def Let_def fold_peace_unfolded)

lemma kh_put_keeps:
  "kh_put h k v = (ret, h') \<Longrightarrow> kh_get h k' = Some p \<Longrightarrow> kh_get h' k' = Some p"
  by (auto simp: kh_put_def kh_get_def split: if_splits)

lemma G_AddEntity_kept:
  assumes "G_AddEntity p s = Some (ok, s')"
  shows "num_factions s' = num_factions s \<and> factions s' = factions s
     \<and> diplomacy_table s' = diplomacy_table s
     \<and> (\<forall>k q. kh_get (active_ents s) k = Some q \<longrightarrow> kh_get (active_ents s') k = Some q)"
proof -
  from assms obtain ent where e: "heap s p = Some ent"
    by (auto simp: G_AddEntity_def split: option.splits)
  obtain ret act where k: "kh_put (active_ents s) (uid ent) p = (ret, act)"
    by (cases "kh_put (active_ents s) (uid ent) p")
  obtain ret' dyn where k': "kh_put (dynamic_ents (s\<lparr>active_ents := act\<rparr>)) (uid ent) p = (ret', dyn)"
    by (cases "kh_put (dynamic_ents (s\<lparr>active_ents := act\<rparr>)) (uid ent) p")
  from assms e k k' have "s' = s \<or> s' = s\<lparr>active_ents := act\<rparr>
      \<or> s' = s\<lparr>active_ents := act, dynamic_ents := dyn\<rparr>"
    by (auto simp: G_AddEntity_def Let_def split: if_splits)
  with kh_put_keeps [OF k] show ?thesis by auto
qed

lemma S_Entity_ObjFromAtts_kept:
  assumes "S_Entity_ObjFromAtts mk path name tbl cargs s = Some (ok, s')"
  shows "registry_kept s s'"
proof (cases "mk path name tbl cargs")
  case None
  with assms show ?thesis by (simp add: S_Entity_ObjFromAtts_def registry_kept_refl)
next
  case (Some pe)
  obtain p ent where pe: "pe = (p, ent)" by (cases pe)
  with Some assms have "G_AddEntity p (s\<lparr>heap := (heap s)(p \<mapsto> ent)\<rparr>) = Some (ok, s')"
    by (simp add: S_Entity_ObjFromAtts_def)
  from G_AddEntity_kept [OF this] show ?thesis
    by (simp add: registry_kept_def)
qed

lemma scene_load_entity_kept:
  assumes "scene_load_entity L mk stream s = Some ((ok, s'), stream')"
  shows "registry_kept s s'"
proof -
  from assms have "s' = s \<or> (\<exists>path name tbl cargs ok'.
      S_Entity_ObjFromAtts mk path name tbl cargs s = Some (ok', s'))"
    by (auto simp: scene_load_entity_def split: option.splits prod.splits if_splits)
  then show ?thesis
    by (auto simp: registry_kept_refl dest: S_Entity_ObjFromAtts_kept)
qed

lemma scene_load_faction_kept:
  assumes "scene_load_faction L stream s = Some ((ok, s'), stream')"
  shows "registry_kept s s'"
proof -
  from assms have "s' = s \<or> (\<exists>name v. s' = snd (G_AddFaction name v s))"
    by (auto simp: scene_load_faction_def
          split: option.splits prod.splits if_splits attr_value.splits)
  then show ?thesis
    by (auto simp: registry_kept_refl G_AddFaction_kept)
qed

lemma scene_load_factions_kept:
  "scene_load_factions L n stream s = Some ((ok, s'), stream') \<Longrightarrow> registry_kept s s'"
proof (induction n arbitrary: stream s)
  case 0
  then show ?case by (simp add: registry_kept_refl)
next
  case (Suc n)
  from Suc.prems obtain ok1 s1 stream1 where
    f: "scene_load_faction L stream s = Some ((ok1, s1), stream1)"
    by (auto split: option.splits)
  note k1 = scene_load_faction_kept [OF f]
  show ?case
  proof (cases ok1)
    case False
    with Suc.prems f have "s' = s1" by simp
    with k1 show ?thesis by simp
  next
    case True
    with Suc.prems f have "scene_load_factions L n stream1 s1 = Some ((ok, s'), stream')"
      by simp
    from registry_kept_trans [OF k1 Suc.IH [OF this]] show ?thesis .
  qed
qed

lemma scene_load_entities_kept:
  "scene_load_entities L mk n stream s = Some ((ok, s'), stream') \<Longrightarrow> registry_kept s s'"
proof (induction n arbitrary: stream s)
  case 0
  then show ?case by (simp add: registry_kept_refl)
next
  case (Suc n)
  from Suc.prems obtain ok1 s1 stream1 where
    f: "scene_load_entity L mk stream s = Some ((ok1, s1), stream1)"
    by (auto split: option.splits)
  note k1 = scene_load_entity_kept [OF f]
  show ?case
  proof (cases ok1)
    case False
    with Suc.prems f have "s' = s1" by simp
    with k1 show ?thesis by simp
  next
    case True
    with Suc.prems f have "scene_load_entities L mk n stream1 s1 = Some ((ok, s'), stream')"
      by simp
    from registry_kept_trans [OF k1 Suc.IH [OF this]] show ?thesis .
  qed
qed

lemma Scene_Load_after_factions:
  assumes a: "Scene_Load L mk (Some (line # rest)) s = Some (False, s')"
    and sc: "sscanf_num_factions L line = (rc, nf)" and rc: "rc \<noteq> 0"
    and lf: "scene_load_factions L nf rest s = Some ((ok1, s1), stream2)"
  shows "registry_kept s1 s'"
proof -
  from a sc rc lf have "s' = s1 \<or> (\<exists>ne stream3 ok2 stream4.
      scene_load_entities L mk ne stream3 s1 = Some ((ok2, s'), stream4))"
    by (auto simp: Scene_Load_def READ_LINE_def
          split: option.splits list.splits prod.splits if_splits)
  then show ?thesis
    by (auto simp: registry_kept_refl dest: scene_load_entities_kept)
qed

lemma scene_load_faction_record:
  assumes "scene_load_faction L stream s = Some ((ok, s'), stream')"
  shows "(faction_record L stream = None \<and> \<not> ok \<and> s' = s)
       \<or> (\<exists>r. faction_record L stream = Some (r, stream') \<and> ok \<and> s' = add_faction r s)"
  using assms
  by (auto simp: scene_load_faction_def faction_record_def add_faction_def READ_LINE_def
        split: option.splits prod.splits if_splits attr_value.splits list.splits)

lemma scene_load_factions_records:
  "scene_load_factions L n stream s = Some ((ok, s'), stream') \<Longrightarrow>
     s' = fold add_faction (fst (faction_records L n stream)) s
     \<and> (ok \<longrightarrow> length (fst (faction_records L n stream)) = n
               \<and> snd (faction_records L n stream) = stream')
     \<and> (\<not> ok \<longrightarrow> length (fst (faction_records L n stream)) < n)"
proof (induction n arbitrary: stream s)
  case 0
  then show ?case by simp
next
  case (Suc n)
  from Suc.prems obtain ok1 s1 stream1 where
    f: "scene_load_faction L stream s = Some ((ok1, s1), stream1)"
    by (auto split: option.splits)
  from scene_load_faction_record [OF f]
  consider (bad) "faction_record L stream = None" "\<not> ok1" "s1 = s"
    | (good) r where "faction_record L stream = Some (r, stream1)" "ok1" "s1 = add_faction r s"
    by auto
  then show ?case
  proof cases
    case bad
    with Suc.prems f have "s' = s" "\<not> ok" by simp_all
    with bad show ?thesis by simp
  next
    case good
    with Suc.prems f have "scene_load_factions L n stream1 s1 = Some ((ok, s'), stream')"
      by simp
    from Suc.IH [OF this] good show ?thesis
      by (auto split: prod.splits)
  qed
qed

lemma scene_load_entity_record:
  assumes "scene_load_entity L mk stream s = Some ((ok, s'), stream')"
  shows "(entity_record L stream = None \<and> \<not> ok \<and> s' = s)
       \<or> (\<exists>path name tbl cargs. entity_record L stream = Some ((path, name, tbl, cargs), stream')
             \<and> S_Entity_ObjFromAtts mk path name tbl cargs s = Some (ok, s'))"
  using assms
  by (auto simp: scene_load_entity_def entity_record_def READ_LINE_def
        split: option.splits prod.splits if_splits list.splits)

lemma scene_load_entities_records:
  "scene_load_entities L mk n stream s = Some ((ok, s'), stream') \<Longrightarrow>
     register_entities mk (entity_records L n stream) s = Some s'"
proof (induction n arbitrary: stream s)
  case 0
  then show ?case by simp
next
  case (Suc n)
  from Suc.prems obtain ok1 s1 stream1 where
    f: "scene_load_entity L mk stream s = Some ((ok1, s1), stream1)"
    by (auto split: option.splits)
  from scene_load_entity_record [OF f]
  consider (bad) "entity_record L stream = None" "\<not> ok1" "s1 = s"
    | (good) path name tbl cargs where
        "entity_record L stream = Some ((path, name, tbl, cargs), stream1)"
        "S_Entity_ObjFromAtts mk path name tbl cargs s = Some (ok1, s1)"
    by auto
  then show ?case
  proof cases
    case bad
    with Suc.prems f have "s' = s" by simp
    with bad show ?thesis by simp
  next
    case good
    show ?thesis
    proof (cases ok1)
      case True
      with Suc.prems f have "scene_load_entities L mk n stream1 s1 = Some ((ok, s'), stream')"
        by simp
      from Suc.IH [OF this] good True show ?thesis by simp
    next
      case False
      with Suc.prems f have "s' = s1" by simp
      with good False show ?thesis by simp
    qed
  qed
qed

lemma register_entities_factions:
  "register_entities mk rs s = Some s' \<Longrightarrow>
     num_factions s' = num_factions s \<and> factions s' = factions s
     \<and> diplomacy_table s' = diplomacy_table s"
proof (induction rs arbitrary: s)
  case Nil
  then show ?case by simp
next
  case (Cons r rs)
  obtain path name tbl cargs where r: "r = (path, name, tbl, cargs)" by (cases r)
  from Cons.prems r obtain ok s1 where
    o: "S_Entity_ObjFromAtts mk path name tbl cargs s = Some (ok, s1)"
    by (auto split: option.splits)
  have k: "num_factions s1 = num_factions s \<and> factions s1 = factions s
     \<and> diplomacy_table s1 = diplomacy_table s"
  proof (cases "mk path name tbl cargs")
    case None
    with o show ?thesis by (simp add: S_Entity_ObjFromAtts_def)
  next
    case (Some pe)
    obtain p ent where pe: "pe = (p, ent)" by (cases pe)
    with Some o have "G_AddEntity p (s\<lparr>heap := (heap s)(p \<mapsto> ent)\<rparr>) = Some (ok, s1)"
      by (simp add: S_Entity_ObjFromAtts_def)
    from G_AddEntity_kept [OF this] show ?thesis by simp
  qed
  show ?case
  proof (cases ok)
    case True
    with Cons.prems r o have "register_entities mk rs s1 = Some s'" by simp
    from Cons.IH [OF this] k show ?thesis by simp
  next
    case False
    with Cons.prems r o have "s' = s1" by simp
    with k show ?thesis by simp
  qed
qed

lemma fold_add_faction_kept: "registry_kept s (fold add_faction fs s)"
proof (induction fs arbitrary: s)
  case Nil
  show ?case by (simp add: registry_kept_refl)
next
  case (Cons r fs)
  have "registry_kept s (add_faction r s)"
    unfolding add_faction_def by (rule G_AddFaction_kept)
  from registry_kept_trans [OF this Cons.IH [of "add_faction r s"]]
  show ?case by simp
qed

lemma add_faction_new:
  assumes "num_factions s < MAX_FACTIONS" and "length (fst r) < MAX_FAC_NAME_LEN"
  shows "num_factions (add_faction r s) = Suc (num_factions s)"
    and "factions (add_faction r s) (num_factions s)
           = \<lparr>fac_name = fst r, color = snd r, controllable = True\<rparr>"
  using assms by (simp_all add: add_faction_def G_AddFaction_def Let_def)

lemma fold_add_faction_new:
  "num_factions s + length fs \<le> MAX_FACTIONS \<Longrightarrow>
   \<forall>r \<in> set fs. length (fst r) < MAX_FAC_NAME_LEN \<Longrightarrow>
     num_factions (fold add_faction fs s) = num_factions s + length fs
     \<and> (\<forall>i < length fs. factions (fold add_faction fs s) (num_factions s + i)
           = \<lparr>fac_name = fst (fs ! i), color = snd (fs ! i), controllable = True\<rparr>)"
proof (induction fs arbitrary: s)
  case Nil
  show ?case by simp
next
  case (Cons r fs)
  let ?s1 = "add_faction r s"
  let ?s2 = "fold add_faction fs ?s1"
  from Cons.prems have lt: "num_factions s < MAX_FACTIONS" and nm: "length (fst r) < MAX_FAC_NAME_LEN"
    by simp_all
  note n1 = add_faction_new [OF lt nm]
  from Cons.prems n1(1) have "num_factions ?s1 + length fs \<le> MAX_FACTIONS"
    and "\<forall>r \<in> set fs. length (fst r) < MAX_FAC_NAME_LEN"
    by simp_all
  from Cons.IH [OF this] have
    n2: "num_factions ?s2 = num_factions ?s1 + length fs"
    and f2: "\<And>i. i < length fs \<Longrightarrow> factions ?s2 (num_factions ?s1 + i)
           = \<lparr>fac_name = fst (fs ! i), color = snd (fs ! i), controllable = True\<rparr>"
    by simp_all
  have k: "registry_kept ?s1 ?s2" by (rule fold_add_faction_kept)
  have f0: "factions ?s2 (num_factions s) = \<lparr>fac_name = fst r, color = snd r, controllable = True\<rparr>"
  proof -
    from n1(1) have "num_factions s < num_factions ?s1" by simp
    with k have "factions ?s2 (num_factions s) = factions ?s1 (num_factions s)"
      by (simp add: registry_kept_def)
    with n1(2) show ?thesis by simp
  qed
  have "factions (fold add_faction (r # fs) s) (num_factions s + i)
           = \<lparr>fac_name = fst ((r # fs) ! i), color = snd ((r # fs) ! i), controllable = True\<rparr>"
    if "i < length (r # fs)" for i
  proof (cases i)
    case 0
    with f0 show ?thesis by simp
  next
    case (Suc k)
    with that have "k < length fs" by simp
    from f2 [OF this] n1(1) Suc show ?thesis by simp
  qed
  with n2 n1(1) show ?case by simp
qed

lemma Scene_Load_failure_exact:
  assumes a: "Scene_Load L mk (Some (line # rest)) s = Some (False, s')"
    and sc: "sscanf_num_factions L line = (rc, nf)" and rc: "rc \<noteq> 0"
    and fr: "faction_records L nf rest = (fs, rest2)"
  shows "if length fs < nf \<or> rest2 = [] \<or> fst (sscanf_num_entities L (hd rest2)) = 0
         then s' = fold add_faction fs s
         else register_entities mk
                (entity_records L (snd (sscanf_num_entities L (hd rest2))) (tl rest2))
                (fold add_faction fs s) = Some s'"
proof -
  from a sc rc obtain ok1 s1 stream2 where
    lf: "scene_load_factions L nf rest s = Some ((ok1, s1), stream2)"
    by (auto simp: Scene_Load_def READ_LINE_def split: option.splits)
  from scene_load_factions_records [OF lf] fr have
    s1: "s1 = fold add_faction fs s"
    and ok: "ok1 \<Longrightarrow> length fs = nf \<and> rest2 = stream2"
    and nok: "\<not> ok1 \<Longrightarrow> length fs < nf"
    by simp_all
  show ?thesis
  proof (cases ok1)
    case False
    with a sc rc lf have "s' = s1" by (simp add: Scene_Load_def READ_LINE_def)
    with nok [OF False] s1 show ?thesis by simp
  next
    case True
    from ok [OF True] have len: "length fs = nf" and r2: "rest2 = stream2" by simp_all
    show ?thesis
    proof (cases stream2)
      case Nil
      with a sc rc lf True have "s' = s1" by (simp add: Scene_Load_def READ_LINE_def)
      with Nil r2 s1 show ?thesis by simp
    next
      case (Cons line2 stream3)
      obtain rc2 ne where sc2: "sscanf_num_entities L line2 = (rc2, ne)"
        by (cases "sscanf_num_entities L line2")
      show ?thesis
      proof (cases "rc2 = 0")
        case True
        with a sc rc lf \<open>ok1\<close> Cons sc2 have "s' = s1"
          by (simp add: Scene_Load_def READ_LINE_def)
        with True Cons r2 s1 sc2 show ?thesis by simp
      next
        case False
        with a sc rc lf \<open>ok1\<close> Cons sc2 obtain ok2 stream4 where
          "scene_load_entities L mk ne stream3 s1 = Some ((ok2, s'), stream4)"
          by (auto simp: Scene_Load_def READ_LINE_def split: option.splits)
        from scene_load_entities_records [OF this] False Cons r2 s1 sc2 len
        show ?thesis by simp
      qed
    qed
  qed
qed

text \<open>
  C1, amended. On every file on which \<open>Scene_Load\<close> returns false, nothing is taken
  back: the registry is the one before the call with \<open>G_AddFaction\<close> applied, in the
  order of the file, for every faction record that parsed before the failing step,
  and then with the entities registered whose records loaded before it. So the
  registry still holds the factions, with their diplomacy, and the active entities
  that it held before the call, and the factions added during the failed load remain
  in it, behind those it held (as far as the faction array has room and the names
  fit). The registry is as it was when the file cannot be opened, when it is empty,
  and when \<open>sscanf\<close> returns 0 on its first line.
\<close>

theorem Scene_Load_failure_keeps_loaded_records:
  "(Scene_Load L mk file s = Some (False, s') \<longrightarrow> registry_kept s s')
   \<and> ((file = None \<or> file = Some []
        \<or> (\<exists>line rest. file = Some (line # rest) \<and> fst (sscanf_num_factions L line) = 0))
       \<longrightarrow> Scene_Load L mk file s = Some (False, s))
   \<and> (file = Some (line # rest) \<and> sscanf_num_factions L line = (rc, nf) \<and> rc \<noteq> 0
        \<and> faction_records L nf rest = (fs, rest2)
        \<and> Scene_Load L mk file s = Some (False, s')
       \<longrightarrow> (if length fs < nf \<or> rest2 = [] \<or> fst (sscanf_num_entities L (hd rest2)) = 0
            then s' = fold add_faction fs s
            else register_entities mk
                   (entity_records L (snd (sscanf_num_entities L (hd rest2))) (tl rest2))
                   (fold add_faction fs s) = Some s')
          \<and> registry_kept (fold add_faction fs s) s'
          \<and> (num_factions s + length fs \<le> MAX_FACTIONS
               \<and> (\<forall>r \<in> set fs. length (fst r) < MAX_FAC_NAME_LEN)
              \<longrightarrow> num_factions s' = num_factions s + length fs
                \<and> (\<forall>i < length fs. factions s' (num_factions s + i)
                      = \<lparr>fac_name = fst (fs ! i), color = snd (fs ! i), controllable = True\<rparr>)))"
proof (intro conjI impI)
  assume a: "Scene_Load L mk file s = Some (False, s')"
  show "registry_kept s s'"
  proof (cases "s' = s")
    case True
    then show ?thesis by (simp add: registry_kept_refl)
  next
    case False
    with a obtain line stream1 where fl: "file = Some (line # stream1)"
      by (auto simp: Scene_Load_def READ_LINE_def split: option.splits list.splits)
    obtain rc nf where sc: "sscanf_num_factions L line = (rc, nf)"
      by (cases "sscanf_num_factions L line")
    from a False fl sc have rc: "rc \<noteq> 0"
      by (auto simp: Scene_Load_def READ_LINE_def)
    with a fl sc obtain ok1 s1 stream2 where
      lf: "scene_load_factions L nf stream1 s = Some ((ok1, s1), stream2)"
      by (auto simp: Scene_Load_def READ_LINE_def split: option.splits)
    from registry_kept_trans [OF scene_load_factions_kept [OF lf]
        Scene_Load_after_factions [OF a [unfolded fl] sc rc lf]]
    show ?thesis .
  qed
next
  assume "file = None \<or> file = Some []
        \<or> (\<exists>line rest. file = Some (line # rest) \<and> fst (sscanf_num_factions L line) = 0)"
  then show "Scene_Load L mk file s = Some (False, s)"
    by (auto simp: Scene_Load_def READ_LINE_def split: prod.splits)
next
  assume b: "file = Some (line # rest) \<and> sscanf_num_factions L line = (rc, nf) \<and> rc \<noteq> 0
        \<and> faction_records L nf rest = (fs, rest2)
        \<and> Scene_Load L mk file s = Some (False, s')"
  then have a: "Scene_Load L mk (Some (line # rest)) s = Some (False, s')"
    and sc: "sscanf_num_factions L line = (rc, nf)" and rc: "rc \<noteq> 0"
    and fr: "faction_records L nf rest = (fs, rest2)"
    by auto
  let ?s1 = "fold add_faction fs s"
  note ex = Scene_Load_failure_exact [OF a sc rc fr]
  then show "if length fs < nf \<or> rest2 = [] \<or> fst (sscanf_num_entities L (hd rest2)) = 0
            then s' = fold add_faction fs s
            else register_entities mk
                   (entity_records L (snd (sscanf_num_entities L (hd rest2))) (tl rest2))
                   (fold add_faction fs s) = Some s'" .
  from ex have same: "num_factions s' = num_factions ?s1 \<and> factions s' = factions ?s1"
    by (auto split: if_splits dest: register_entities_factions)
  from a sc rc obtain ok1 s1 stream2 where
    lf: "scene_load_factions L nf rest s = Some ((ok1, s1), stream2)"
    by (auto simp: Scene_Load_def READ_LINE_def split: option.splits)
  from scene_load_factions_records [OF lf] fr have s1: "s1 = ?s1" by simp
  from Scene_Load_after_factions [OF a sc rc lf] s1
  show "registry_kept ?s1 s'" by simp
  {
    assume c: "num_factions s + length fs \<le> MAX_FACTIONS
               \<and> (\<forall>r \<in> set fs. length (fst r) < MAX_FAC_NAME_LEN)"
    then have c1: "num_factions s + length fs \<le> MAX_FACTIONS"
      and c2: "\<forall>r \<in> set fs. length (fst r) < MAX_FAC_NAME_LEN" by simp_all
    from fold_add_faction_new [OF c1 c2] same
    show "num_factions s' = num_factions s + length fs" by simp
    from fold_add_faction_new [OF c1 c2] same
    show "\<forall>i < length fs. factions s' (num_factions s + i)
            = \<lparr>fac_name = fst (fs ! i), color = snd (fs ! i), controllable = True\<rparr>"
      by simp
  }
qed

lemma ex_scene_load2:
  "Scene_Load ex_libc ex_ctor (Some ex_scene_file2) ex_gs
     = Some (False, fold add_faction [(''red'', (1, 0, 0)), (''blue'', (0, 0, 1))] ex_gs)"
  by (simp add: Scene_Load_def ex_scene_file2_def ex_libc_def READ_LINE_def
        scene_load_faction_def scene_load_entity_def scene_parse_att_def scene_parse_val_def
        pf_strtok_r_def is_delim_def ATTR_KEY_SIZE_def Let_def add_faction_def numeral_2_eq_2)

lemma ex_faction_records2:
  "faction_records ex_libc 2 (tl ex_scene_file2)
     = ([(''red'', (1, 0, 0)), (''blue'', (0, 0, 1))], [''num_entities 1'', ''entities'']) "
  by (simp add: ex_scene_file2_def ex_libc_def faction_record_def scene_parse_att_def
        scene_parse_val_def READ_LINE_def pf_strtok_r_def is_delim_def ATTR_KEY_SIZE_def
        Let_def numeral_2_eq_2)

text \<open>
  A malformed file is not always refused. On a line that ends before the first
  conversion \<open>sscanf\<close> returns \<open>EOF\<close>, not 0, and the tests \<open>!sscanf(...)\<close> of
  \<open>scene.c\<close> take that for success; the count is then whatever the variable held,
  here 0.
\<close>

lemma Scene_Load_accepts_unfinished_lines:
  "Scene_Load ex_libc ex_ctor (Some [''num_factions'', ''num_entities'']) ex_gs
     = Some (True, ex_gs)"
  by (simp add: Scene_Load_def ex_libc_def READ_LINE_def)

lemma ex_entity_records3:
  "entity_records ex_libc 2 [''entity tree models/tree 0'', ''entities'']
     = [(''models/tree'', ''tree'', [], [])]"
  by (simp add: entity_record_def ex_libc_def numeral_2_eq_2)

lemma ex_faction_records3:
  "faction_records ex_libc 1 (tl ex_scene_file3)
     = ([(''red'', (1, 0, 0))], [''num_entities 2'', ''entity tree models/tree 0'', ''entities''])"
  by (simp add: ex_scene_file3_def ex_libc_def faction_record_def scene_parse_att_def
        scene_parse_val_def READ_LINE_def pf_strtok_r_def is_delim_def ATTR_KEY_SIZE_def
        Let_def)

lemma ex_tree_static: "flag_set (flags ex_static_ent) ENTITY_FLAG_STATIC"
  by (simp add: ex_static_ent_def flag_set_def ENTITY_FLAG_STATIC_def ENTITY_FLAG_COLLISION_def)

lemma ex_scene_load3:
  "Scene_Load ex_libc ex_tree_ctor (Some ex_scene_file3) ex_gs
     = Some (False, (add_faction (''red'', (1, 0, 0)) ex_gs)
          \<lparr>heap := (heap ex_gs)(13 \<mapsto> ex_static_ent\<lparr>uid := 9\<rparr>),
           active_ents := active_ents ex_gs @ [(9, 13)]\<rparr>)"
  by (simp add: Scene_Load_def ex_scene_file3_def ex_libc_def READ_LINE_def
        scene_load_faction_def scene_load_entity_def scene_parse_att_def scene_parse_val_def
        pf_strtok_r_def is_delim_def ATTR_KEY_SIZE_def Let_def add_faction_def numeral_2_eq_2
        S_Entity_ObjFromAtts_def ex_tree_ctor_def G_AddEntity_def G_AddFaction_def kh_put_def
        ex_gs_def ex_tree_static MAX_FACTIONS_def MAX_FAC_NAME_LEN_def)

theorem Scene_Load_failure_keeps_loaded_records_witness:
  "Scene_Load ex_libc ex_ctor (Some ex_scene_file2) ex_gs
     = Some (False, fold add_faction [(''red'', (1, 0, 0)), (''blue'', (0, 0, 1))] ex_gs)
   \<and> sscanf_num_factions ex_libc (hd ex_scene_file2) = (1, 2)
   \<and> faction_records ex_libc 2 (tl ex_scene_file2)
       = ([(''red'', (1, 0, 0)), (''blue'', (0, 0, 1))], [''num_entities 1'', ''entities''])
   \<and> registry_kept ex_gs (fold add_faction [(''red'', (1, 0, 0)), (''blue'', (0, 0, 1))] ex_gs)
   \<and> num_factions ex_gs = 3
   \<and> num_factions (fold add_faction [(''red'', (1, 0, 0)), (''blue'', (0, 0, 1))] ex_gs) = 5
   \<and> factions (fold add_faction [(''red'', (1, 0, 0)), (''blue'', (0, 0, 1))] ex_gs) 3
       = \<lparr>fac_name = ''red'', color = (1, 0, 0), controllable = True\<rparr>
   \<and> factions (fold add_faction [(''red'', (1, 0, 0)), (''blue'', (0, 0, 1))] ex_gs) 4
       = \<lparr>fac_name = ''blue'', color = (0, 0, 1), controllable = True\<rparr>
   \<and> fst (sscanf_num_factions ex_libc ''factions 1'') = 0
   \<and> Scene_Load ex_libc ex_ctor (Some [''factions 1'']) ex_gs = Some (False, ex_gs)
   \<and> Scene_Load ex_libc ex_tree_ctor (Some ex_scene_file3) ex_gs
       = Some (False, (add_faction (''red'', (1, 0, 0)) ex_gs)
            \<lparr>heap := (heap ex_gs)(13 \<mapsto> ex_static_ent\<lparr>uid := 9\<rparr>),
             active_ents := active_ents ex_gs @ [(9, 13)]\<rparr>)
   \<and> register_entities ex_tree_ctor [(''models/tree'', ''tree'', [], [])]
       (fold add_faction [(''red'', (1, 0, 0))] ex_gs)
     = Some ((add_faction (''red'', (1, 0, 0)) ex_gs)
          \<lparr>heap := (heap ex_gs)(13 \<mapsto> ex_static_ent\<lparr>uid := 9\<rparr>),
           active_ents := active_ents ex_gs @ [(9, 13)]\<rparr>)
   \<and> kh_get (active_ents ex_gs) 9 = None
   \<and> kh_get (active_ents ((add_faction (''red'', (1, 0, 0)) ex_gs)
          \<lparr>heap := (heap ex_gs)(13 \<mapsto> ex_static_ent\<lparr>uid := 9\<rparr>),
           active_ents := active_ents ex_gs @ [(9, 13)]\<rparr>)) 9 = Some 13
   \<and> num_factions ((add_faction (''red'', (1, 0, 0)) ex_gs)
          \<lparr>heap := (heap ex_gs)(13 \<mapsto> ex_static_ent\<lparr>uid := 9\<rparr>),
           active_ents := active_ents ex_gs @ [(9, 13)]\<rparr>) = 4"
proof -
  have A: "Scene_Load ex_libc ex_ctor (Some ex_scene_file2) ex_gs
     = Some (False, fold add_faction [(''red'', (1, 0, 0)), (''blue'', (0, 0, 1))] ex_gs)
   \<and> sscanf_num_factions ex_libc (hd ex_scene_file2) = (1, 2)
   \<and> faction_records ex_libc 2 (tl ex_scene_file2)
       = ([(''red'', (1, 0, 0)), (''blue'', (0, 0, 1))], [''num_entities 1'', ''entities''])
   \<and> registry_kept ex_gs (fold add_faction [(''red'', (1, 0, 0)), (''blue'', (0, 0, 1))] ex_gs)
   \<and> num_factions ex_gs = 3
   \<and> num_factions (fold add_faction [(''red'', (1, 0, 0)), (''blue'', (0, 0, 1))] ex_gs) = 5
   \<and> factions (fold add_faction [(''red'', (1, 0, 0)), (''blue'', (0, 0, 1))] ex_gs) 3
       = \<lparr>fac_name = ''red'', color = (1, 0, 0), controllable = True\<rparr>
   \<and> factions (fold add_faction [(''red'', (1, 0, 0)), (''blue'', (0, 0, 1))] ex_gs) 4
       = \<lparr>fac_name = ''blue'', color = (0, 0, 1), controllable = True\<rparr>
   \<and> fst (sscanf_num_factions ex_libc ''factions 1'') = 0
   \<and> Scene_Load ex_libc ex_ctor (Some [''factions 1'']) ex_gs = Some (False, ex_gs)"
  proof -
  let ?fs = "[(''red'', (1, 0, 0)), (''blue'', (0, 0, 1))] :: (string \<times> vec3_t) list"
  let ?s' = "fold add_faction ?fs ex_gs"
  have z: "fst (sscanf_num_factions ex_libc ''factions 1'') = 0"
    by (simp add: ex_libc_def)
  have f: "Some ex_scene_file2 = Some (hd ex_scene_file2 # tl ex_scene_file2)"
    by (simp add: ex_scene_file2_def)
  have sc: "sscanf_num_factions ex_libc (hd ex_scene_file2) = (1, 2)"
    by (simp add: ex_libc_def ex_scene_file2_def)
  have n: "num_factions ex_gs = 3" by (simp add: ex_gs_def)
  have room: "num_factions ex_gs + length ?fs \<le> MAX_FACTIONS
               \<and> (\<forall>r \<in> set ?fs. length (fst r) < MAX_FAC_NAME_LEN)"
    by (simp add: n MAX_FACTIONS_def MAX_FAC_NAME_LEN_def)
  from Scene_Load_failure_keeps_loaded_records [of ex_libc ex_ctor "Some ex_scene_file2" ex_gs
      ?s' "hd ex_scene_file2" "tl ex_scene_file2" 1 2 ?fs "[''num_entities 1'', ''entities'']"]
    ex_scene_load2 f sc ex_faction_records2 room
  have a: "registry_kept ex_gs ?s'"
    and b: "num_factions ?s' = num_factions ex_gs + length ?fs"
    and c: "\<forall>i < length ?fs. factions ?s' (num_factions ex_gs + i)
              = \<lparr>fac_name = fst (?fs ! i), color = snd (?fs ! i), controllable = True\<rparr>"
    by simp_all
  from c [rule_format, of 0] have c0: "factions ?s' (num_factions ex_gs)
              = \<lparr>fac_name = ''red'', color = (1, 0, 0), controllable = True\<rparr>"
    by simp
  from c [rule_format, of 1] have c1: "factions ?s' (num_factions ex_gs + 1)
              = \<lparr>fac_name = ''blue'', color = (0, 0, 1), controllable = True\<rparr>"
    by simp
  from Scene_Load_failure_keeps_loaded_records [of ex_libc ex_ctor "Some [''factions 1'']" ex_gs] z
  have d: "Scene_Load ex_libc ex_ctor (Some [''factions 1'']) ex_gs = Some (False, ex_gs)"
    by blast
  from a b c0 c1 n have
    "registry_kept ex_gs ?s'" "num_factions ?s' = 5"
    "factions ?s' 3 = \<lparr>fac_name = ''red'', color = (1, 0, 0), controllable = True\<rparr>"
    "factions ?s' 4 = \<lparr>fac_name = ''blue'', color = (0, 0, 1), controllable = True\<rparr>"
    by simp_all
    with ex_scene_load2 sc ex_faction_records2 n z d show ?thesis
      by simp
  qed
  have B: "register_entities ex_tree_ctor [(''models/tree'', ''tree'', [], [])]
       (fold add_faction [(''red'', (1, 0, 0))] ex_gs)
     = Some ((add_faction (''red'', (1, 0, 0)) ex_gs)
          \<lparr>heap := (heap ex_gs)(13 \<mapsto> ex_static_ent\<lparr>uid := 9\<rparr>),
           active_ents := active_ents ex_gs @ [(9, 13)]\<rparr>)
   \<and> kh_get (active_ents ex_gs) 9 = None
   \<and> kh_get (active_ents ((add_faction (''red'', (1, 0, 0)) ex_gs)
          \<lparr>heap := (heap ex_gs)(13 \<mapsto> ex_static_ent\<lparr>uid := 9\<rparr>),
           active_ents := active_ents ex_gs @ [(9, 13)]\<rparr>)) 9 = Some 13
   \<and> num_factions ((add_faction (''red'', (1, 0, 0)) ex_gs)
          \<lparr>heap := (heap ex_gs)(13 \<mapsto> ex_static_ent\<lparr>uid := 9\<rparr>),
           active_ents := active_ents ex_gs @ [(9, 13)]\<rparr>) = 4"
  proof -
  let ?fs = "[(''red'', (1, 0, 0))] :: (string \<times> vec3_t) list"
  let ?s3 = "(add_faction (''red'', (1, 0, 0)) ex_gs)
          \<lparr>heap := (heap ex_gs)(13 \<mapsto> ex_static_ent\<lparr>uid := 9\<rparr>),
           active_ents := active_ents ex_gs @ [(9, 13)]\<rparr>"
  have f: "Some ex_scene_file3 = Some (hd ex_scene_file3 # tl ex_scene_file3)"
    by (simp add: ex_scene_file3_def)
  have sc: "sscanf_num_factions ex_libc (hd ex_scene_file3) = (1, 1)"
    by (simp add: ex_libc_def ex_scene_file3_def)
  have ne: "sscanf_num_entities ex_libc ''num_entities 2'' = (1, 2)"
    by (simp add: ex_libc_def)
  have n: "num_factions ex_gs = 3" by (simp add: ex_gs_def)
  have room: "num_factions ex_gs + length ?fs \<le> MAX_FACTIONS
               \<and> (\<forall>r \<in> set ?fs. length (fst r) < MAX_FAC_NAME_LEN)"
    by (simp add: n MAX_FACTIONS_def MAX_FAC_NAME_LEN_def)
  from Scene_Load_failure_keeps_loaded_records [of ex_libc ex_tree_ctor "Some ex_scene_file3"
      ex_gs ?s3 "hd ex_scene_file3" "tl ex_scene_file3" 1 1 ?fs
      "[''num_entities 2'', ''entity tree models/tree 0'', ''entities'']"]
    ex_scene_load3 f sc ex_faction_records3 room
  have a: "register_entities ex_tree_ctor [(''models/tree'', ''tree'', [], [])]
             (fold add_faction ?fs ex_gs) = Some ?s3"
    and b: "num_factions ?s3 = num_factions ex_gs + length ?fs"
    by (simp_all add: ne ex_entity_records3)
  have k: "kh_get (active_ents ex_gs) 9 = None" "kh_get (active_ents ?s3) 9 = Some 13"
    by (simp_all add: kh_get_def ex_gs_def)
    from a b k n show ?thesis by simp
  qed
  from A ex_scene_load3 B show ?thesis by simp
qed

end
